theory Spec2Isabelle
  imports Complex_Main "HOL-Library.Finite_Map" "HOL-Library.AList"
begin

section \<open>Data model\<close>

text \<open>
  The scheduling engine of the background service worker (the second document of
  \<^verbatim>\<open>constants.js\<close>) and the instance operations of \<^verbatim>\<open>storage.js\<close>.

  Numbers are the integers that the popup's \<^verbatim>\<open>parseInt\<close> stores; \<^verbatim>\<open>Math.random()\<close> is a
  real \<open>r\<close> with \<open>0 \<le> r < 1\<close> handed to the function that draws it; \<^verbatim>\<open>Date.now()\<close> is one
  clock reading per operation. Every operation runs to completion before the next one
  starts, and the calls to \<^verbatim>\<open>chrome.storage\<close> and \<^verbatim>\<open>chrome.notifications\<close> succeed.
\<close>

datatype ActionType = Key | Mouse

datatype TimeUnit = Milliseconds | Seconds | Minutes | Hours

record ActionInstance =
  enabled :: bool
  executionCount :: int
  startedAt :: int
  tabTitle :: string
  nextExecution :: "int option"
  lastExecuted :: "int option"

text \<open>The field \<^verbatim>\<open>instances\<close> is a JavaScript object keyed by tab id: a finite map.\<close>

record Action =
  action_id :: string
  action_name :: string
  action_type :: ActionType
  action_key :: string
  interval :: int
  timeUnit :: TimeUnit
  randomize :: bool
  randomizeMin :: int
  randomizeMax :: int
  urlFilter :: "string option"
  repeatLimit :: "int option"
  timeLimit :: "int option"
  instances :: "(int, ActionInstance) fmap"

record Settings =
  globalEnabled :: bool
  notifications :: bool
  maxLogs :: nat

record LogEntry =
  l_actionId :: string
  l_actionName :: string
  l_type :: ActionType
  l_key :: string
  l_success :: bool
  l_error :: "string option"
  l_tabId :: "int option"
  l_timestamp :: int

record TimerInfo =
  timerId :: nat
  t_nextExecution :: int
  intervalMs :: int
  t_actionId :: string
  t_tabId :: int

record Tab =
  tab_id :: int
  tab_url :: string
  tab_title :: string

datatype Notification = Notification (n_title: string) (n_message: string) (n_silent: bool)

text \<open>
  The state of the service worker: the three storage keys it uses, its module-level
  variables (\<^verbatim>\<open>activeTimers\<close> and \<^verbatim>\<open>errorRecoveryAttempts\<close> are JavaScript Maps, kept in
  insertion order), the runtime's table of pending timeouts (handle to the arguments of
  the callback \<^verbatim>\<open>executeAndRescheduleOnTab\<close>), the badge text and the notifications shown.
\<close>

record State =
  actions :: "Action list"
  settings :: Settings
  logs :: "LogEntry list"
  activeTimers :: "(string \<times> TimerInfo) list"
  errorRecoveryAttempts :: "(string \<times> int) list"
  isInitialized :: bool
  pendingTimeouts :: "(nat, string \<times> int) fmap"
  nextTimerId :: nat
  badgeText :: string
  notified :: "Notification list"

definition MAX_RECOVERY_ATTEMPTS :: int where
  "MAX_RECOVERY_ATTEMPTS = 3"

definition MAX_INTERVAL_MS :: int where
  "MAX_INTERVAL_MS = 24 * 60 * 60 * 1000"

definition MIN_INTERVAL_MS :: int where
  "MIN_INTERVAL_MS = 100"

definition MAX_INSTANCES_PER_ACTION :: nat where
  "MAX_INSTANCES_PER_ACTION = 5"

section \<open>Strings\<close>

definition digitChar :: "nat \<Rightarrow> char" where
  "digitChar n = char_of (48 + n)"

fun showNat :: "nat \<Rightarrow> string" where
  "showNat n = (if n < 10 then [digitChar n] else showNat (n div 10) @ [digitChar (n mod 10)])"

declare showNat.simps [simp del]

text \<open>The decimal text a template literal gives an integer.\<close>

definition showInt :: "int \<Rightarrow> string" where
  "showInt i = (if i < 0 then CHR ''-'' # showNat (nat (- i)) else showNat (nat i))"

definition timerKey :: "string \<Rightarrow> int \<Rightarrow> string" where
  "timerKey actionId tabId = actionId @ ''-'' @ showInt tabId"

definition startsWith :: "string \<Rightarrow> string \<Rightarrow> bool" where
  "startsWith s p = (take (length p) s = p)"

fun includesStr :: "string \<Rightarrow> string \<Rightarrow> bool" where
  "includesStr [] p = (p = [])"
| "includesStr (c # cs) p = (startsWith (c # cs) p \<or> includesStr cs p)"

fun splitOn :: "char \<Rightarrow> string \<Rightarrow> string list" where
  "splitOn sep [] = [[]]"
| "splitOn sep (c # cs) =
     (if c = sep then [] # splitOn sep cs
      else (case splitOn sep cs of [] \<Rightarrow> [[c]] | w # ws \<Rightarrow> (c # w) # ws))"

text \<open>ASCII white space and ASCII letters; the source's methods also know Unicode's.\<close>

definition isWhitespace :: "char \<Rightarrow> bool" where
  "isWhitespace c = (of_char c \<in> {9, 10, 11, 12, 13, 32 :: nat})"

definition trim :: "string \<Rightarrow> string" where
  "trim s = rev (dropWhile isWhitespace (rev (dropWhile isWhitespace s)))"

definition lowerChar :: "char \<Rightarrow> char" where
  "lowerChar c = (let n = of_char c :: nat in if 65 \<le> n \<and> n \<le> 90 then char_of (n + 32) else c)"

definition toLowerCase :: "string \<Rightarrow> string" where
  "toLowerCase s = map lowerChar s"

definition matchesUrlFilter :: "string \<Rightarrow> string \<Rightarrow> bool" where
  "matchesUrlFilter url flt =
     (if flt = [] \<or> url = [] then True
      else let filters = map (\<lambda>f. toLowerCase (trim f)) (splitOn CHR '','' flt);
               urlLower = toLowerCase url
           in list_ex (\<lambda>f. if startsWith f ''*.'' then includesStr urlLower (drop 2 f)
                            else includesStr urlLower f) filters)"

section \<open>Interval calculator\<close>

fun unitMultiplier :: "TimeUnit \<Rightarrow> int" where
  "unitMultiplier Milliseconds = 1"
| "unitMultiplier Seconds = 1000"
| "unitMultiplier Minutes = 60000"
| "unitMultiplier Hours = 3600000"

text \<open>\<^verbatim>\<open>calculateInterval(action)\<close>, with the result of \<^verbatim>\<open>Math.random()\<close> as \<open>rnd\<close>.\<close>

definition calculateInterval :: "Action \<Rightarrow> real \<Rightarrow> int" where
  "calculateInterval action rnd =
     (let baseMs = max MIN_INTERVAL_MS
                     (min MAX_INTERVAL_MS (interval action * unitMultiplier (timeUnit action)))
      in if randomize action \<and> (randomizeMin action \<noteq> 0 \<or> randomizeMax action \<noteq> 0) then
           let mn = randomizeMin action;
               mx = (if randomizeMax action < mn then mn else randomizeMax action);
               mn' = mn * unitMultiplier (timeUnit action);
               mx' = mx * unitMultiplier (timeUnit action)
           in if mx' > 0 then \<lfloor>rnd * real_of_int (mx' - mn' + 1) + real_of_int mn'\<rfloor>
              else baseMs
         else baseMs)"

section \<open>Storage\<close>

text \<open>
  \<^verbatim>\<open>validateAction\<close>: the type of the record already gives an object, strings, a type that is
  \<^verbatim>\<open>key\<close> or \<^verbatim>\<open>mouse\<close> and a number; what remains are the non-empty id and name, the interval
  of at least 1 and the limit on the number of instances.
\<close>

definition validateAction :: "Action \<Rightarrow> bool" where
  "validateAction action =
     (action_id action \<noteq> [] \<and> action_name action \<noteq> [] \<and> 1 \<le> interval action \<and>
      fcard (fmdom (instances action)) \<le> MAX_INSTANCES_PER_ACTION)"

text \<open>\<^verbatim>\<open>getActions\<close> drops the stored actions that do not validate.\<close>

definition getActions :: "State \<Rightarrow> Action list" where
  "getActions s = filter validateAction (actions s)"

text \<open>
  \<^verbatim>\<open>saveActions\<close> validates before it writes. Every caller below passes the list of
  \<^verbatim>\<open>getActions\<close> after a change that keeps each action valid (lemmas
  \<open>getActions_removeActionInstance\<close>, \<open>getActions_updateActionInstance\<close> and
  \<open>addActionInstance_Inr\<close>), so the write is all that happens.
\<close>

definition saveActions :: "Action list \<Rightarrow> State \<Rightarrow> State" where
  "saveActions acts s = s\<lparr>actions := acts\<rparr>"

text \<open>\<^verbatim>\<open>actions.find(a => a.id === actionId)\<close>\<close>

definition findAction :: "string \<Rightarrow> Action list \<Rightarrow> Action option" where
  "findAction actionId acts = find (\<lambda>a. action_id a = actionId) acts"

text \<open>The object that \<^verbatim>\<open>find\<close> returned is changed in place: the first match in the list.\<close>

fun updFirst :: "string \<Rightarrow> (Action \<Rightarrow> Action) \<Rightarrow> Action list \<Rightarrow> Action list" where
  "updFirst actionId f [] = []"
| "updFirst actionId f (a # as) =
     (if action_id a = actionId then f a # as else a # updFirst actionId f as)"

text \<open>
  A \<^verbatim>\<open>ValidationError\<close> thrown inside \<^verbatim>\<open>executeWithRetry\<close> is retried and comes out as a
  \<^verbatim>\<open>StorageError\<close>; thrown before it, it comes out as it is.
\<close>

datatype StorageFailure = ValidationError string | StorageError string

definition newInstance :: "int \<Rightarrow> string \<Rightarrow> int \<Rightarrow> ActionInstance" where
  "newInstance tabId title now =
     \<lparr>enabled = True, executionCount = 0, startedAt = now,
      tabTitle = (if title = [] then ''Tab '' @ showInt tabId else title),
      nextExecution = None, lastExecuted = None\<rparr>"

definition addActionInstance ::
  "string \<Rightarrow> int \<Rightarrow> string \<Rightarrow> int \<Rightarrow> State \<Rightarrow> StorageFailure + State" where
  "addActionInstance actionId tabId title now s =
     (if actionId = [] then Inl (ValidationError ''actionId must be a non-empty string'')
      else if tabId \<le> 0 then Inl (ValidationError ''tabId must be a positive number'')
      else case findAction actionId (getActions s) of
        None \<Rightarrow> Inl (StorageError ''Operation addActionInstance failed after 3 attempts'')
      | Some action \<Rightarrow>
          if fcard (fmdom (instances action)) \<ge> MAX_INSTANCES_PER_ACTION
             \<and> fmlookup (instances action) tabId = None
          then Inl (StorageError ''Operation addActionInstance failed after 3 attempts'')
          else Inr (saveActions
                 (updFirst actionId
                    (\<lambda>a. a\<lparr>instances := fmupd tabId (newInstance tabId title now) (instances a)\<rparr>)
                    (getActions s)) s))"

definition removeActionInstance :: "string \<Rightarrow> int \<Rightarrow> State \<Rightarrow> State" where
  "removeActionInstance actionId tabId s =
     (case findAction actionId (getActions s) of
        None \<Rightarrow> s
      | Some action \<Rightarrow>
          saveActions
            (updFirst actionId (\<lambda>a. a\<lparr>instances := fmdrop tabId (instances a)\<rparr>) (getActions s)) s)"

text \<open>The partial object \<^verbatim>\<open>updates\<close> is the function \<open>upd\<close> that sets its fields.\<close>

definition updateActionInstance ::
  "string \<Rightarrow> int \<Rightarrow> (ActionInstance \<Rightarrow> ActionInstance) \<Rightarrow> State \<Rightarrow> State" where
  "updateActionInstance actionId tabId upd s =
     (case findAction actionId (getActions s) of
        None \<Rightarrow> s
      | Some action \<Rightarrow>
          (case fmlookup (instances action) tabId of
             None \<Rightarrow> s
           | Some inst \<Rightarrow>
               saveActions
                 (updFirst actionId (\<lambda>a. a\<lparr>instances := fmupd tabId (upd inst) (instances a)\<rparr>)
                    (getActions s)) s))"

definition getActionInstances :: "string \<Rightarrow> State \<Rightarrow> (int, ActionInstance) fmap" where
  "getActionInstances actionId s =
     (case findAction actionId (getActions s) of None \<Rightarrow> fmempty | Some action \<Rightarrow> instances action)"

definition addLog :: "LogEntry \<Rightarrow> int \<Rightarrow> State \<Rightarrow> State" where
  "addLog logEntry now s =
     (let logs' = logEntry\<lparr>l_timestamp := now\<rparr> # logs s
      in s\<lparr>logs := (if length logs' > maxLogs (settings s)
                     then take (maxLogs (settings s)) logs' else logs')\<rparr>)"

definition saveSettings :: "(Settings \<Rightarrow> Settings) \<Rightarrow> State \<Rightarrow> State" where
  "saveSettings upd s = s\<lparr>settings := upd (settings s)\<rparr>"

section \<open>Timer registry\<close>

definition clearTimeout :: "nat \<Rightarrow> State \<Rightarrow> State" where
  "clearTimeout h s = s\<lparr>pendingTimeouts := fmdrop h (pendingTimeouts s)\<rparr>"

text \<open>\<^verbatim>\<open>setTimeout\<close> returns a fresh handle; the callback is the cycle for the pair.\<close>

definition setTimeout :: "string \<Rightarrow> int \<Rightarrow> State \<Rightarrow> nat \<times> State" where
  "setTimeout actionId tabId s =
     (nextTimerId s,
      s\<lparr>pendingTimeouts := fmupd (nextTimerId s) (actionId, tabId) (pendingTimeouts s),
        nextTimerId := Suc (nextTimerId s)\<rparr>)"

text \<open>\<^verbatim>\<open>if (timerInfo?.timerId) clearTimeout(timerInfo.timerId)\<close>\<close>

definition clearExisting :: "string \<Rightarrow> State \<Rightarrow> State" where
  "clearExisting key s =
     (case map_of (activeTimers s) key of
        None \<Rightarrow> s
      | Some timerInfo \<Rightarrow> if timerId timerInfo \<noteq> 0 then clearTimeout (timerId timerInfo) s else s)"

definition clearAllTimers :: "State \<Rightarrow> State" where
  "clearAllTimers s =
     (fold (\<lambda>(key, timerInfo) s'. if timerId timerInfo \<noteq> 0 then clearTimeout (timerId timerInfo) s' else s')
        (activeTimers s) s)\<lparr>activeTimers := []\<rparr>"

definition updateBadge :: "int \<Rightarrow> State \<Rightarrow> State" where
  "updateBadge count s = s\<lparr>badgeText := (if count > 0 then showInt count else [])\<rparr>"

definition enabledCount :: "Action \<Rightarrow> int" where
  "enabledCount action =
     int (length (filter (\<lambda>(tabId, inst). enabled inst) (sorted_list_of_fmap (instances action))))"

definition refreshBadge :: "State \<Rightarrow> State" where
  "refreshBadge s =
     (if \<not> globalEnabled (settings s) then updateBadge 0 s
      else updateBadge (sum_list (map enabledCount (getActions s))) s)"

definition scheduleActionOnTab ::
  "Action \<Rightarrow> int \<Rightarrow> int \<Rightarrow> real \<Rightarrow> State \<Rightarrow> string + State" where
  "scheduleActionOnTab action tabId now rnd s =
     (let ms = calculateInterval action rnd in
      if ms < MIN_INTERVAL_MS \<or> ms > MAX_INTERVAL_MS
      then Inl (''Invalid interval: '' @ showInt ms @ ''ms'')
      else
        let next = now + ms;
            key = timerKey (action_id action) tabId;
            s1 = clearExisting key s;
            (h, s2) = setTimeout (action_id action) tabId s1;
            s3 = s2\<lparr>activeTimers :=
                     AList.update key
                       \<lparr>timerId = h, t_nextExecution = next, intervalMs = ms,
                        t_actionId = action_id action, t_tabId = tabId\<rparr>
                       (activeTimers s2)\<rparr>
        in Inr (updateActionInstance (action_id action) tabId
                  (\<lambda>inst. inst\<lparr>nextExecution := Some next\<rparr>) s3))"

definition stopActionOnTab :: "string \<Rightarrow> int \<Rightarrow> State \<Rightarrow> State" where
  "stopActionOnTab actionId tabId s =
     (let key = timerKey actionId tabId;
          s1 = clearExisting key s;
          s2 = s1\<lparr>activeTimers := AList.delete key (activeTimers s1),
                  errorRecoveryAttempts := AList.delete key (errorRecoveryAttempts s1)\<rparr>
      in refreshBadge (removeActionInstance actionId tabId s2))"

section \<open>Execution dispatcher\<close>

datatype Dispatch = Skipped | Injected

definition restrictedUrl :: "string \<Rightarrow> bool" where
  "restrictedUrl url =
     (startsWith url ''chrome://'' \<or> startsWith url ''edge://'' \<or>
      startsWith url ''chrome-extension://'' \<or> startsWith url ''about:'' \<or>
      startsWith url ''file://'')"

text \<open>
  \<^verbatim>\<open>executeAction(action, tab)\<close>. \<open>inject\<close> is what \<^verbatim>\<open>chrome.scripting.executeScript\<close> does
  when it is called: \<open>None\<close> when it resolves, the message of the error when it rejects.
  \<open>Inl\<close> is the message of the error thrown; a plain return is \<open>Inr\<close>, and says whether
  the script was injected.
\<close>

definition executeAction :: "Action \<Rightarrow> Tab \<Rightarrow> string option \<Rightarrow> string + Dispatch" where
  "executeAction action tab inject =
     (if tab_id tab = 0 then Inl ''Invalid tab''
      else if restrictedUrl (tab_url tab) then Inr Skipped
      else case inject of
             None \<Rightarrow> Inr Injected
           | Some m \<Rightarrow> Inl (''Script injection failed: '' @ m))"

text \<open>The message \<^verbatim>\<open>Action "${name}" finished after ${reason}\<close>.\<close>

definition completionMessage :: "string \<Rightarrow> string \<Rightarrow> string" where
  "completionMessage name reason =
     ''Action '' @ [CHR 0x22] @ name @ [CHR 0x22] @ '' finished after '' @ reason"

definition notifyCompletion :: "string \<Rightarrow> string \<Rightarrow> State \<Rightarrow> State" where
  "notifyCompletion name reason s =
     s\<lparr>notified := notified s @
          [Notification ''Task Completed'' (completionMessage name reason) False]\<rparr>"

definition notifyProgress :: "Action \<Rightarrow> int \<Rightarrow> Tab \<Rightarrow> State \<Rightarrow> State" where
  "notifyProgress action newCount tab s =
     s\<lparr>notified := notified s @
          [Notification ''GhostInput''
             (action_name action @ '': '' @ showInt newCount @ ''x on '' @
              (if take 20 (tab_title tab) = [] then ''tab'' else take 20 (tab_title tab))) True]\<rparr>"

section \<open>Execution and reschedule cycle\<close>

text \<open>
  What the world answers during one cycle: \<^verbatim>\<open>chrome.tabs.get\<close> (\<open>None\<close> when it rejects), the
  script injection, the clock, and \<^verbatim>\<open>Math.random()\<close> for the reschedule and for the one in
  the \<^verbatim>\<open>catch\<close> block.
\<close>

record CycleEnv =
  env_tab :: "Tab option"
  env_inject :: "string option"
  env_now :: int
  env_rnd :: real
  env_rnd2 :: real

text \<open>\<^verbatim>\<open>errorRecoveryAttempts.get(timerKey) || 0\<close>\<close>

definition storedAttempts :: "string \<Rightarrow> State \<Rightarrow> int" where
  "storedAttempts key s = (case map_of (errorRecoveryAttempts s) key of None \<Rightarrow> 0 | Some n \<Rightarrow> n)"

text \<open>The outer \<^verbatim>\<open>catch\<close> block of \<^verbatim>\<open>executeAndRescheduleOnTab\<close>.\<close>

definition recoverCycle :: "string \<Rightarrow> int \<Rightarrow> CycleEnv \<Rightarrow> State \<Rightarrow> State" where
  "recoverCycle actionId tabId env s =
     (let key = timerKey actionId tabId;
          attempts = storedAttempts key s + 1;
          s1 = s\<lparr>errorRecoveryAttempts := AList.update key attempts (errorRecoveryAttempts s)\<rparr>;
          cleanup = stopActionOnTab actionId tabId
                      (s1\<lparr>activeTimers := AList.delete key (activeTimers s1)\<rparr>)
      in if attempts < MAX_RECOVERY_ATTEMPTS then
           (case findAction actionId (getActions s1) of
              None \<Rightarrow> cleanup
            | Some action \<Rightarrow>
                (case scheduleActionOnTab action tabId (env_now env) (env_rnd2 env) s1 of
                   Inr s2 \<Rightarrow> s2
                 | Inl e \<Rightarrow> cleanup))
         else cleanup)"

text \<open>
  \<^verbatim>\<open>await scheduleActionOnTab(action, tabId)\<close> inside the \<^verbatim>\<open>try\<close>: when it throws, the
  \<^verbatim>\<open>catch\<close> block runs.
\<close>

definition reschedule :: "Action \<Rightarrow> string \<Rightarrow> int \<Rightarrow> CycleEnv \<Rightarrow> State \<Rightarrow> State" where
  "reschedule action actionId tabId env s =
     (case scheduleActionOnTab action tabId (env_now env) (env_rnd env) s of
        Inr s' \<Rightarrow> s'
      | Inl e \<Rightarrow> recoverCycle actionId tabId env s)"

text \<open>\<^verbatim>\<open>action.repeatLimit && newCount >= action.repeatLimit\<close>\<close>

definition repeatLimitReached :: "Action \<Rightarrow> int \<Rightarrow> bool" where
  "repeatLimitReached action newCount =
     (case repeatLimit action of None \<Rightarrow> False | Some l \<Rightarrow> l \<noteq> 0 \<and> newCount \<ge> l)"

definition elapsedMinutes :: "ActionInstance \<Rightarrow> int \<Rightarrow> real" where
  "elapsedMinutes inst now = real_of_int (now - startedAt inst) / 60000"

text \<open>\<^verbatim>\<open>action.timeLimit && instance.startedAt\<close> and the elapsed minutes reach the limit.\<close>

definition timeLimitReached :: "Action \<Rightarrow> ActionInstance \<Rightarrow> int \<Rightarrow> bool" where
  "timeLimitReached action inst now =
     (case timeLimit action of None \<Rightarrow> False
      | Some l \<Rightarrow> l \<noteq> 0 \<and> startedAt inst \<noteq> 0 \<and> elapsedMinutes inst now \<ge> real_of_int l)"

text \<open>The part of the cycle after a dispatch that did not throw.\<close>

definition afterSuccess ::
  "Action \<Rightarrow> ActionInstance \<Rightarrow> Tab \<Rightarrow> Settings \<Rightarrow> string \<Rightarrow> int \<Rightarrow> CycleEnv \<Rightarrow> State \<Rightarrow> State" where
  "afterSuccess action inst tab sett actionId tabId env s =
     (let newCount = executionCount inst + 1;
          s1 = updateActionInstance actionId tabId
                 (\<lambda>i. i\<lparr>executionCount := newCount, lastExecuted := Some (env_now env)\<rparr>) s
      in if repeatLimitReached action newCount then
           notifyCompletion (action_name action) (showInt newCount @ '' executions on tab'')
             (stopActionOnTab actionId tabId s1)
         else if timeLimitReached action inst (env_now env) then
           notifyCompletion (action_name action)
             (showInt \<lfloor>elapsedMinutes inst (env_now env) + 1 / 2\<rfloor> @ '' minutes on tab'')
             (stopActionOnTab actionId tabId s1)
         else
           reschedule action actionId tabId env
             (if notifications sett \<and> (newCount = 1 \<or> newCount mod 50 = 0)
              then notifyProgress action newCount tab s1 else s1))"

text \<open>\<^verbatim>\<open>tab && action.urlFilter && !matchesUrlFilter(tab.url, action.urlFilter)\<close>\<close>

definition filterSkips :: "Action \<Rightarrow> Tab \<Rightarrow> bool" where
  "filterSkips action tab =
     (case urlFilter action of None \<Rightarrow> False
      | Some f \<Rightarrow> f \<noteq> [] \<and> \<not> matchesUrlFilter (tab_url tab) f)"

definition terminalLog :: "Action \<Rightarrow> string \<Rightarrow> int \<Rightarrow> string \<Rightarrow> LogEntry" where
  "terminalLog action actionId tabId msg =
     \<lparr>l_actionId = actionId, l_actionName = action_name action, l_type = action_type action,
      l_key = action_key action, l_success = False,
      l_error = Some (''Max recovery attempts reached: '' @ msg), l_tabId = Some tabId,
      l_timestamp = 0\<rparr>"

definition executeAndRescheduleOnTab :: "string \<Rightarrow> int \<Rightarrow> CycleEnv \<Rightarrow> State \<Rightarrow> State" where
  "executeAndRescheduleOnTab actionId tabId env s =
     (let key = timerKey actionId tabId;
          forget = s\<lparr>activeTimers := AList.delete key (activeTimers s)\<rparr>
      in case findAction actionId (getActions s) of
           None \<Rightarrow> refreshBadge forget
         | Some action \<Rightarrow>
            (case fmlookup (instances action) tabId of
               None \<Rightarrow> refreshBadge forget
             | Some inst \<Rightarrow>
                if \<not> enabled inst then refreshBadge forget
                else if \<not> globalEnabled (settings s) then forget
                else
                  (case env_tab env of
                     None \<Rightarrow> stopActionOnTab actionId tabId s
                   | Some tab \<Rightarrow>
                      if filterSkips action tab
                      then reschedule action actionId tabId env s
                      else
                        (case executeAction action tab (env_inject env) of
                           Inl msg \<Rightarrow>
                             (let attempts = storedAttempts key s + 1 in
                              if attempts \<ge> MAX_RECOVERY_ATTEMPTS then
                                addLog (terminalLog action actionId tabId msg) (env_now env)
                                  (stopActionOnTab actionId tabId s)
                              else
                                reschedule action actionId tabId env
                                  (s\<lparr>errorRecoveryAttempts :=
                                       AList.update key attempts (errorRecoveryAttempts s)\<rparr>))
                         | Inr d \<Rightarrow>
                             afterSuccess action inst tab (settings s) actionId tabId env s))))"

text \<open>The runtime fires the timeout \<open>h\<close>: it leaves the table and its callback runs.\<close>

definition timerFires :: "nat \<Rightarrow> CycleEnv \<Rightarrow> State \<Rightarrow> State" where
  "timerFires h env s =
     (case fmlookup (pendingTimeouts s) h of
        None \<Rightarrow> s
      | Some (actionId, tabId) \<Rightarrow> executeAndRescheduleOnTab actionId tabId env (clearTimeout h s))"

section \<open>Scheduling orchestrator\<close>

text \<open>
  The loop of \<^verbatim>\<open>initializeTimers\<close> over the enabled instances, in the order of the actions
  and, inside an action, of \<^verbatim>\<open>Object.entries\<close> (integer keys ascending). A scheduling that
  throws is logged and skipped; one that succeeds counts. \<open>rnd k\<close> is the result of
  \<^verbatim>\<open>Math.random()\<close> for the \<open>k\<close>-th call.
\<close>

fun scheduleAll ::
  "(Action \<times> int) list \<Rightarrow> int \<Rightarrow> (nat \<Rightarrow> real) \<Rightarrow> nat \<Rightarrow> State \<Rightarrow> int \<Rightarrow> State \<times> int" where
  "scheduleAll [] now rnd k s activeCount = (s, activeCount)"
| "scheduleAll ((action, tabId) # rest) now rnd k s activeCount =
     (case scheduleActionOnTab action tabId now (rnd k) s of
        Inr s' \<Rightarrow> scheduleAll rest now rnd (Suc k) s' (activeCount + 1)
      | Inl e \<Rightarrow> scheduleAll rest now rnd (Suc k) s activeCount)"

definition enabledTargets :: "Action list \<Rightarrow> (Action \<times> int) list" where
  "enabledTargets acts =
     concat (map (\<lambda>action. map (\<lambda>(tabId, inst). (action, tabId))
                    (filter (\<lambda>(tabId, inst). enabled inst) (sorted_list_of_fmap (instances action))))
               acts)"

definition initializeTimers :: "int \<Rightarrow> (nat \<Rightarrow> real) \<Rightarrow> State \<Rightarrow> State" where
  "initializeTimers now rnd s =
     (if isInitialized s then s
      else
        let s0 = s\<lparr>isInitialized := True\<rparr>;
            acts = getActions s0
        in if \<not> globalEnabled (settings s0) then updateBadge 0 s0
           else
             let (s1, activeCount) = scheduleAll (enabledTargets acts) now rnd 0 (clearAllTimers s0) 0
             in updateBadge activeCount s1)"

text \<open>The handler of the message \<^verbatim>\<open>REFRESH_TIMERS\<close>.\<close>

definition refreshTimers :: "int \<Rightarrow> (nat \<Rightarrow> real) \<Rightarrow> State \<Rightarrow> State" where
  "refreshTimers now rnd s = initializeTimers now rnd (s\<lparr>isInitialized := False\<rparr>)"

definition toggleGlobal :: "int \<Rightarrow> (nat \<Rightarrow> real) \<Rightarrow> State \<Rightarrow> State" where
  "toggleGlobal now rnd s =
     (let newEnabled = \<not> globalEnabled (settings s);
          s1 = saveSettings (\<lambda>st. st\<lparr>globalEnabled := newEnabled\<rparr>) s
      in if newEnabled then initializeTimers now rnd (s1\<lparr>isInitialized := False\<rparr>)
         else updateBadge 0 (clearAllTimers s1))"

datatype StartResult = StartSuccess | StartFailure string string

text \<open>
  \<^verbatim>\<open>startActionOnTab(actionId, tabId, tabTitle)\<close>; \<open>tabLookup\<close> is the answer of
  \<^verbatim>\<open>chrome.tabs.get\<close> when the title is not given.
\<close>

definition startActionOnTab ::
  "string \<Rightarrow> int \<Rightarrow> string option \<Rightarrow> Tab option \<Rightarrow> int \<Rightarrow> real \<Rightarrow> State \<Rightarrow> StartResult \<times> State" where
  "startActionOnTab actionId tabId givenTitle tabLookup now rnd s =
     (case findAction actionId (getActions s) of
        None \<Rightarrow> (StartFailure ''Action not found'' ''ACTION_NOT_FOUND'', s)
      | Some action \<Rightarrow>
          let s1 = (if \<not> globalEnabled (settings s)
                    then (saveSettings (\<lambda>st. st\<lparr>globalEnabled := True\<rparr>) s)\<lparr>isInitialized := False\<rparr>
                    else s);
              fallback = ''Tab '' @ showInt tabId;
              title = (case givenTitle of
                         Some t \<Rightarrow> if t \<noteq> [] then t
                                   else (case tabLookup of None \<Rightarrow> fallback
                                         | Some tab \<Rightarrow> if tab_title tab \<noteq> [] then tab_title tab else fallback)
                       | None \<Rightarrow> (case tabLookup of None \<Rightarrow> fallback
                                   | Some tab \<Rightarrow> if tab_title tab \<noteq> [] then tab_title tab else fallback))
          in case addActionInstance actionId tabId title now s1 of
               Inl (ValidationError m) \<Rightarrow> (StartFailure m ''START_ERROR'', s1)
             | Inl (StorageError m) \<Rightarrow> (StartFailure m ''START_ERROR'', s1)
             | Inr s2 \<Rightarrow>
                 (case scheduleActionOnTab action tabId now rnd s2 of
                    Inl m \<Rightarrow> (StartFailure m ''START_ERROR'', s2)
                  | Inr s3 \<Rightarrow> (StartSuccess, refreshBadge s3)))"

text \<open>\<^verbatim>\<open>startAction\<close>: without a target tab, the active tab of the last focused window.\<close>

definition startAction ::
  "string \<Rightarrow> int option \<Rightarrow> Tab option \<Rightarrow> Tab option \<Rightarrow> int \<Rightarrow> real \<Rightarrow> State \<Rightarrow> StartResult \<times> State" where
  "startAction actionId targetTabId activeTab tabLookup now rnd s =
     (let target = (case targetTabId of
                      Some t \<Rightarrow> if t \<noteq> 0 then t
                                else (case activeTab of None \<Rightarrow> 0 | Some tab \<Rightarrow> tab_id tab)
                    | None \<Rightarrow> (case activeTab of None \<Rightarrow> 0 | Some tab \<Rightarrow> tab_id tab))
      in if target = 0 then (StartFailure ''No target tab'' ''NO_TARGET_TAB'', s)
         else startActionOnTab actionId target None tabLookup now rnd s)"

definition stopActionOnAllTabs :: "string \<Rightarrow> State \<Rightarrow> State" where
  "stopActionOnAllTabs actionId s =
     fold (\<lambda>tabId s'. stopActionOnTab actionId tabId s')
       (map fst (sorted_list_of_fmap (getActionInstances actionId s))) s"

definition toggleActionState ::
  "string \<Rightarrow> bool \<Rightarrow> int option \<Rightarrow> Tab option \<Rightarrow> Tab option \<Rightarrow> int \<Rightarrow> real \<Rightarrow> State \<Rightarrow> State" where
  "toggleActionState actionId shouldBeEnabled targetTabId activeTab tabLookup now rnd s =
     (if shouldBeEnabled then snd (startAction actionId targetTabId activeTab tabLookup now rnd s)
      else (case targetTabId of
              None \<Rightarrow> stopActionOnAllTabs actionId s
            | Some t \<Rightarrow> if t \<noteq> 0 then stopActionOnTab actionId t s
                        else stopActionOnAllTabs actionId s))"

definition tabClosedLog :: "Action \<Rightarrow> int \<Rightarrow> LogEntry" where
  "tabClosedLog action tabId =
     \<lparr>l_actionId = action_id action, l_actionName = action_name action, l_type = action_type action,
      l_key = action_key action, l_success = False,
      l_error = Some (''Tab '' @ showInt tabId @ '' was closed''), l_tabId = Some tabId,
      l_timestamp = 0\<rparr>"

text \<open>The listener of \<^verbatim>\<open>chrome.tabs.onRemoved\<close>.\<close>

definition onTabRemoved :: "int \<Rightarrow> int \<Rightarrow> State \<Rightarrow> State" where
  "onTabRemoved tabId now s =
     fold (\<lambda>action s'. addLog (tabClosedLog action tabId) now (stopActionOnTab (action_id action) tabId s'))
       (filter (\<lambda>action. fmlookup (instances action) tabId \<noteq> None) (getActions s)) s"

section \<open>Notions used in the statements\<close>

text \<open>What the storage operations do to the action they find.\<close>

definition dropInst :: "int \<Rightarrow> Action \<Rightarrow> Action" where
  "dropInst t a = a\<lparr>instances := fmdrop t (instances a)\<rparr>"

definition updInst :: "int \<Rightarrow> (ActionInstance \<Rightarrow> ActionInstance) \<Rightarrow> Action \<Rightarrow> Action" where
  "updInst t upd a = (case fmlookup (instances a) t of None \<Rightarrow> a
      | Some i \<Rightarrow> a\<lparr>instances := fmupd t (upd i) (instances a)\<rparr>)"

definition badgeCount :: "State \<Rightarrow> int" where
  "badgeCount s = (if \<not> globalEnabled (settings s) then 0 else sum_list (map enabledCount (getActions s)))"

definition addInst :: "int \<Rightarrow> ActionInstance \<Rightarrow> Action \<Rightarrow> Action" where
  "addInst t v a = a\<lparr>instances := fmupd t v (instances a)\<rparr>"

text \<open>The checks at the head of the cycle pass: the instance is stored and enabled, and
  scheduling is globally enabled.\<close>

definition cycleLive :: "string \<Rightarrow> int \<Rightarrow> Action \<Rightarrow> ActionInstance \<Rightarrow> State \<Rightarrow> bool" where
  "cycleLive actionId tabId action inst s =
     (findAction actionId (getActions s) = Some action \<and>
      fmlookup (instances action) tabId = Some inst \<and> enabled inst \<and>
      globalEnabled (settings s))"

text \<open>How the dispatch of one cycle ends.\<close>

datatype Outcome = TabGone | FilterSkip | Failed string | Succeeded Dispatch

definition dispatchOutcome :: "Action \<Rightarrow> CycleEnv \<Rightarrow> Outcome" where
  "dispatchOutcome action env =
     (case env_tab env of
        None \<Rightarrow> TabGone
      | Some tab \<Rightarrow>
          if filterSkips action tab then FilterSkip
          else (case executeAction action tab (env_inject env) of
                  Inl msg \<Rightarrow> Failed msg
                | Inr d \<Rightarrow> Succeeded d))"

definition intervalValid :: "Action \<Rightarrow> real \<Rightarrow> bool" where
  "intervalValid action rnd =
     (MIN_INTERVAL_MS \<le> calculateInterval action rnd \<and> calculateInterval action rnd \<le> MAX_INTERVAL_MS)"

text \<open>What is stored for the pair: \<open>None\<close> when the action is not found, \<open>Some None\<close> when
  the action has no instance on the tab.\<close>

definition storedInstance :: "string \<Rightarrow> int \<Rightarrow> State \<Rightarrow> ActionInstance option option" where
  "storedInstance actionId tabId s =
     map_option (\<lambda>a. fmlookup (instances a) tabId) (findAction actionId (getActions s))"

definition completions :: "State \<Rightarrow> Notification list" where
  "completions s = filter (\<lambda>m. n_title m = ''Task Completed'') (notified s)"

text \<open>
  The registry holds one entry per key, and every pending timeout is the one that the entry
  of its pair records (so a timeout that is not in the registry cannot fire). Handles are
  positive and below the next handle, and so are the handles the registry records.
\<close>

definition registryConsistent :: "State \<Rightarrow> bool" where
  "registryConsistent s =
     (distinct (map fst (activeTimers s)) \<and> 0 < nextTimerId s \<and>
      list_all (\<lambda>(key, timerInfo). timerId timerInfo < nextTimerId s) (activeTimers s) \<and>
      fmpred (\<lambda>h (actionId, tabId).
                0 < h \<and> h < nextTimerId s \<and>
                (case map_of (activeTimers s) (timerKey actionId tabId) of
                   None \<Rightarrow> False
                 | Some timerInfo \<Rightarrow> timerId timerInfo = h))
        (pendingTimeouts s))"

definition armedKeys :: "State \<Rightarrow> string set" where
  "armedKeys s = set (map fst (activeTimers s))"

text \<open>The keys of the stored instances with \<^verbatim>\<open>enabled = true\<close>.\<close>

definition keysOf :: "Action list \<Rightarrow> string set" where
  "keysOf acts =
     set (map (\<lambda>(action, tabId). timerKey (action_id action) tabId) (enabledTargets acts))"

definition enabledKeys :: "State \<Rightarrow> string set" where
  "enabledKeys s = keysOf (getActions s)"

definition armedWithinEnabled :: "State \<Rightarrow> bool" where
  "armedWithinEnabled s = (armedKeys s \<subseteq> enabledKeys s)"

section \<open>Orchestrator operations\<close>

text \<open>One request to the orchestrator, or one timeout firing.\<close>

datatype Operation =
    Initialize int "nat \<Rightarrow> real"
  | RefreshTimers int "nat \<Rightarrow> real"
  | StartOnTab string int "string option" "Tab option" int real
  | StopOnTab string int
  | StopOnAllTabs string
  | ToggleAction string bool "int option" "Tab option" "Tab option" int real
  | ToggleGlobal int "nat \<Rightarrow> real"
  | TabRemoved int int
  | TimerFires nat CycleEnv

fun perform :: "Operation \<Rightarrow> State \<Rightarrow> State" where
  "perform (Initialize now rnd) s = initializeTimers now rnd s"
| "perform (RefreshTimers now rnd) s = refreshTimers now rnd s"
| "perform (StartOnTab actionId tabId title tabLookup now rnd) s =
     snd (startActionOnTab actionId tabId title tabLookup now rnd s)"
| "perform (StopOnTab actionId tabId) s = stopActionOnTab actionId tabId s"
| "perform (StopOnAllTabs actionId) s = stopActionOnAllTabs actionId s"
| "perform (ToggleAction actionId shouldBeEnabled target activeTab tabLookup now rnd) s =
     toggleActionState actionId shouldBeEnabled target activeTab tabLookup now rnd s"
| "perform (ToggleGlobal now rnd) s = toggleGlobal now rnd s"
| "perform (TabRemoved tabId now) s = onTabRemoved tabId now s"
| "perform (TimerFires h env) s = timerFires h env s"

section \<open>Example configurations and states\<close>

text \<open>An action that draws its delay between 50 and 150 milliseconds.\<close>

definition ex_randomAction :: Action where
  "ex_randomAction =
     \<lparr>action_id = ''a1'', action_name = ''Press A'', action_type = Key, action_key = ''A'',
      interval = 5, timeUnit = Milliseconds, randomize = True, randomizeMin = 50,
      randomizeMax = 150, urlFilter = None, repeatLimit = None, timeLimit = None,
      instances = fmempty\<rparr>"

text \<open>An action that runs on five tabs; on tab 3 it has executed 17 times.\<close>

definition ex_instance :: "int \<Rightarrow> ActionInstance" where
  "ex_instance n =
     \<lparr>enabled = True, executionCount = n, startedAt = 1000, tabTitle = ''Tab'',
      nextExecution = Some 9000, lastExecuted = Some 4000\<rparr>"

definition ex_fullAction :: Action where
  "ex_fullAction =
     \<lparr>action_id = ''a1'', action_name = ''Press A'', action_type = Key, action_key = ''A'',
      interval = 5, timeUnit = Seconds, randomize = False, randomizeMin = 0,
      randomizeMax = 0, urlFilter = None, repeatLimit = Some 20, timeLimit = None,
      instances = fmap_of_list [(1, ex_instance 2), (2, ex_instance 4), (3, ex_instance 17),
                                (4, ex_instance 1), (5, ex_instance 0)]\<rparr>"

definition ex_settings :: Settings where
  "ex_settings = \<lparr>globalEnabled = True, notifications = True, maxLogs = 100\<rparr>"

definition ex_fullState :: State where
  "ex_fullState =
     \<lparr>actions = [ex_fullAction], settings = ex_settings, logs = [], activeTimers = [],
      errorRecoveryAttempts = [], isInitialized = True, pendingTimeouts = fmempty,
      nextTimerId = 1, badgeText = ''5'', notified = []\<rparr>"

text \<open>An action bound to tab 42, armed, with no failure so far.\<close>

definition ex_inst :: ActionInstance where
  "ex_inst =
     \<lparr>enabled = True, executionCount = 0, startedAt = 1000, tabTitle = ''Inbox'',
      nextExecution = Some 6000, lastExecuted = None\<rparr>"

definition ex_action :: Action where
  "ex_action =
     \<lparr>action_id = ''a1'', action_name = ''Press A'', action_type = Key, action_key = ''A'',
      interval = 5, timeUnit = Seconds, randomize = False, randomizeMin = 0,
      randomizeMax = 0, urlFilter = None, repeatLimit = None, timeLimit = None,
      instances = fmap_of_list [(42, ex_inst)]\<rparr>"

definition ex_state :: State where
  "ex_state =
     \<lparr>actions = [ex_action], settings = ex_settings, logs = [],
      activeTimers = [(''a1-42'', \<lparr>timerId = 1, t_nextExecution = 6000, intervalMs = 5000,
                                 t_actionId = ''a1'', t_tabId = 42\<rparr>)],
      errorRecoveryAttempts = [], isInitialized = True,
      pendingTimeouts = fmap_of_list [(1, (''a1'', 42))],
      nextTimerId = 2, badgeText = ''1'', notified = []\<rparr>"

definition ex_tab :: Tab where
  "ex_tab = \<lparr>tab_id = 42, tab_url = ''https://mail.example.com/'', tab_title = ''Inbox''\<rparr>"

definition ex_envFail :: "string \<Rightarrow> int \<Rightarrow> CycleEnv" where
  "ex_envFail m now =
     \<lparr>env_tab = Some ex_tab, env_inject = Some m, env_now = now, env_rnd = 0, env_rnd2 = 0\<rparr>"

definition ex_envOk :: "int \<Rightarrow> CycleEnv" where
  "ex_envOk now =
     \<lparr>env_tab = Some ex_tab, env_inject = None, env_now = now, env_rnd = 0, env_rnd2 = 0\<rparr>"

text \<open>The state of \<open>ex_state\<close> after two failed dispatches and a successful one.\<close>

definition afterFailFailOk :: State where
  "afterFailFailOk =
     executeAndRescheduleOnTab ''a1'' 42 (ex_envOk 16000)
       (executeAndRescheduleOnTab ''a1'' 42 (ex_envFail ''frame detached'' 11000)
         (executeAndRescheduleOnTab ''a1'' 42 (ex_envFail ''frame detached'' 6000) ex_state))"

text \<open>An action with a repeat limit of 3 and a time limit of one minute, bound to tab 7,
  executed twice so far.\<close>

definition ex_limitInst :: ActionInstance where
  "ex_limitInst =
     \<lparr>enabled = True, executionCount = 2, startedAt = 1000, tabTitle = ''Game'',
      nextExecution = Some 11000, lastExecuted = Some 6000\<rparr>"

definition ex_limitAction :: Action where
  "ex_limitAction =
     \<lparr>action_id = ''a2'', action_name = ''Click'', action_type = Mouse, action_key = [],
      interval = 5, timeUnit = Seconds, randomize = False, randomizeMin = 0,
      randomizeMax = 0, urlFilter = None, repeatLimit = Some 3, timeLimit = Some 1,
      instances = fmap_of_list [(7, ex_limitInst)]\<rparr>"

definition ex_limitState :: State where
  "ex_limitState =
     \<lparr>actions = [ex_limitAction], settings = ex_settings, logs = [],
      activeTimers = [(''a2-7'', \<lparr>timerId = 3, t_nextExecution = 11000, intervalMs = 5000,
                                t_actionId = ''a2'', t_tabId = 7\<rparr>)],
      errorRecoveryAttempts = [], isInitialized = True,
      pendingTimeouts = fmap_of_list [(3, (''a2'', 7))],
      nextTimerId = 4, badgeText = ''1'', notified = []\<rparr>"

definition ex_tab7 :: Tab where
  "ex_tab7 = \<lparr>tab_id = 7, tab_url = ''https://game.example.org/play'', tab_title = ''Game''\<rparr>"

definition ex_env7 :: "int \<Rightarrow> real \<Rightarrow> CycleEnv" where
  "ex_env7 now r =
     \<lparr>env_tab = Some ex_tab7, env_inject = None, env_now = now, env_rnd = r, env_rnd2 = r\<rparr>"

text \<open>The action that draws its delay between 50 and 150 milliseconds, bound to tab 7.\<close>

definition ex_drawState :: State where
  "ex_drawState =
     \<lparr>actions = [ex_randomAction\<lparr>instances := fmap_of_list [(7, ex_limitInst)]\<rparr>],
      settings = ex_settings, logs = [],
      activeTimers = [(''a1-7'', \<lparr>timerId = 3, t_nextExecution = 11000, intervalMs = 140,
                                t_actionId = ''a1'', t_tabId = 7\<rparr>)],
      errorRecoveryAttempts = [], isInitialized = True,
      pendingTimeouts = fmap_of_list [(3, (''a1'', 7))],
      nextTimerId = 4, badgeText = ''1'', notified = []\<rparr>"



text \<open>The state \<open>ex_state\<close> (one armed timer) after the settings were replaced by ones with
  global scheduling off, as an import does, before \<^verbatim>\<open>REFRESH_TIMERS\<close> is handled.\<close>

definition ex_pausedState :: State where
  "ex_pausedState =
     ex_state\<lparr>settings := \<lparr>globalEnabled = False, notifications = True, maxLogs = 100\<rparr>,
              isInitialized := False\<rparr>"

text \<open>The state \<open>ex_state\<close> after its pair is armed once more.\<close>

definition ex_rearmed :: State where
  "ex_rearmed =
     (case scheduleActionOnTab ex_action 42 6000 0 ex_state of Inr s' \<Rightarrow> s' | Inl e \<Rightarrow> ex_state)"

section \<open>Properties of the interval calculator\<close>






section \<open>Storage lemmas\<close>


lemma valid_drop: "validateAction a \<Longrightarrow> validateAction (a\<lparr>instances := fmdrop t (instances a)\<rparr>)"
  unfolding validateAction_def
  by (auto intro: order_trans [OF fcard_mono])

lemma valid_upd_present:
  "validateAction a \<Longrightarrow> fmlookup (instances a) t = Some i \<Longrightarrow>
   validateAction (a\<lparr>instances := fmupd t v (instances a)\<rparr>)"
  unfolding validateAction_def
  by (auto simp: finsert_absorb fmdomI)


lemma findAction_id: "findAction aid acts = Some a \<Longrightarrow> action_id a = aid"
  unfolding findAction_def by (auto simp: find_Some_iff)

lemma findAction_mem: "findAction aid acts = Some a \<Longrightarrow> a \<in> set acts"
  unfolding findAction_def by (auto simp: find_Some_iff)

lemma updFirst_none: "findAction aid acts = None \<Longrightarrow> updFirst aid f acts = acts"
  unfolding findAction_def by (induction acts) (simp_all split: if_splits)

lemma updFirst_cong: "findAction aid acts = Some a \<Longrightarrow> f a = g a \<Longrightarrow> updFirst aid f acts = updFirst aid g acts"
  unfolding findAction_def by (induction acts) (simp_all split: if_splits)

lemma updFirst_fix: "findAction aid acts = Some a \<Longrightarrow> f a = a \<Longrightarrow> updFirst aid f acts = acts"
  unfolding findAction_def by (induction acts) (simp_all split: if_splits)

lemma updFirst_valid:
  assumes "list_all validateAction acts"
    and "\<And>a. findAction aid acts = Some a \<Longrightarrow> validateAction (f a)"
  shows "list_all validateAction (updFirst aid f acts)"
  using assms unfolding findAction_def by (induction acts) auto

lemma findAction_updFirst_same:
  assumes "\<And>a. action_id (f a) = action_id a"
  shows "findAction aid (updFirst aid f acts) = map_option f (findAction aid acts)"
  unfolding findAction_def using assms by (induction acts) auto

lemma findAction_updFirst_other:
  assumes "\<And>a. action_id (f a) = action_id a" and "aid' \<noteq> aid"
  shows "findAction aid' (updFirst aid f acts) = findAction aid' acts"
  unfolding findAction_def using assms by (induction acts) auto

lemma updFirst_twice:
  assumes "\<And>a. action_id (f a) = action_id a"
  shows "updFirst aid g (updFirst aid f acts) = updFirst aid (g \<circ> f) acts"
  using assms by (induction acts) auto

lemma getActions_valid: "list_all validateAction (getActions s)"
  unfolding getActions_def by (simp add: list_all_iff)

lemma getActions_saveActions:
  "list_all validateAction acts \<Longrightarrow> getActions (saveActions acts s) = acts"
  unfolding getActions_def saveActions_def by (simp add: list_all_iff)

lemma findAction_valid: "findAction aid (getActions s) = Some a \<Longrightarrow> validateAction a"
  using findAction_mem [of aid "getActions s" a] getActions_valid [of s]
  by (simp add: list_all_iff)

lemma getActions_removeActionInstance:
  "getActions (removeActionInstance aid t s) = updFirst aid (dropInst t) (getActions s)"
proof (cases "findAction aid (getActions s)")
  case None
  then show ?thesis by (simp add: removeActionInstance_def updFirst_none)
next
  case (Some a)
  have "list_all validateAction (updFirst aid (dropInst t) (getActions s))"
    by (rule updFirst_valid [OF getActions_valid])
       (auto simp: dropInst_def intro!: valid_drop dest: findAction_valid)
  then show ?thesis using Some
    by (simp add: removeActionInstance_def getActions_saveActions dropInst_def [abs_def])
qed


lemma getActions_updateActionInstance:
  "getActions (updateActionInstance aid t upd s) = updFirst aid (updInst t upd) (getActions s)"
proof (cases "findAction aid (getActions s)")
  case None
  then show ?thesis by (simp add: updateActionInstance_def updFirst_none)
next
  case (Some a)
  show ?thesis
  proof (cases "fmlookup (instances a) t")
    case None
    then have "updInst t upd a = a" by (simp add: updInst_def)
    then have "updFirst aid (updInst t upd) (getActions s) = getActions s"
      using Some by (rule updFirst_fix [rotated])
    then show ?thesis using Some None by (simp add: updateActionInstance_def)
  next
    case (Some i)
    have "(\<lambda>a. a\<lparr>instances := fmupd t (upd i) (instances a)\<rparr>) a = updInst t upd a"
      using Some by (simp add: updInst_def)
    with \<open>findAction aid (getActions s) = Some a\<close>
    have same: "updFirst aid (\<lambda>a. a\<lparr>instances := fmupd t (upd i) (instances a)\<rparr>) (getActions s)
        = updFirst aid (updInst t upd) (getActions s)"
      by (rule updFirst_cong)
    have "list_all validateAction (updFirst aid (updInst t upd) (getActions s))"
      by (rule updFirst_valid [OF getActions_valid])
         (auto simp: updInst_def split: option.splits intro: valid_upd_present dest: findAction_valid)
    then show ?thesis
      using \<open>findAction aid (getActions s) = Some a\<close> Some same
      by (simp add: updateActionInstance_def getActions_saveActions)
  qed
qed

lemma updInst_id [simp]: "action_id (updInst t upd a) = action_id a"
  by (simp add: updInst_def split: option.splits)

lemma dropInst_id [simp]: "action_id (dropInst t a) = action_id a"
  by (simp add: dropInst_def)

section \<open>Stopping an instance\<close>

lemma refreshBadge_alt: "refreshBadge s = updateBadge (badgeCount s) s"
  by (simp add: refreshBadge_def badgeCount_def)

lemma getActions_badge [simp]: "getActions (s\<lparr>badgeText := b\<rparr>) = getActions s"
  by (simp add: getActions_def)

lemma removeActionInstance_badge:
  "removeActionInstance aid t (s\<lparr>badgeText := b\<rparr>) = (removeActionInstance aid t s)\<lparr>badgeText := b\<rparr>"
  by (simp add: removeActionInstance_def saveActions_def split: option.splits)

lemma dropInst_idem: "dropInst t \<circ> dropInst t = dropInst t"
  by (rule ext) (simp add: dropInst_def)

lemma removeActionInstance_actions:
  "actions (removeActionInstance aid t s)
     = (case findAction aid (getActions s) of None \<Rightarrow> actions s
        | Some a \<Rightarrow> updFirst aid (dropInst t) (getActions s))"
  by (simp add: removeActionInstance_def saveActions_def dropInst_def [abs_def] split: option.splits)

lemma removeActionInstance_idem:
  "removeActionInstance aid t (removeActionInstance aid t s) = removeActionInstance aid t s"
proof (cases "findAction aid (getActions s)")
  case None
  then show ?thesis by (simp add: removeActionInstance_def)
next
  case (Some a)
  let ?r = "removeActionInstance aid t s"
  have g: "getActions ?r = updFirst aid (dropInst t) (getActions s)"
    by (rule getActions_removeActionInstance)
  have f: "findAction aid (getActions ?r) = Some (dropInst t a)"
    using Some by (simp add: g findAction_updFirst_same)
  have "removeActionInstance aid t ?r
      = ?r\<lparr>actions := updFirst aid (dropInst t) (updFirst aid (dropInst t) (getActions s))\<rparr>"
    using f g by (simp add: removeActionInstance_def [of aid t ?r] saveActions_def dropInst_def [abs_def])
  also have "\<dots> = ?r\<lparr>actions := actions ?r\<rparr>"
    using Some by (simp add: updFirst_twice dropInst_idem removeActionInstance_actions)
  finally show ?thesis by simp
qed

lemma clearExisting_absent:
  "map_of (activeTimers s) key = None \<Longrightarrow> clearExisting key s = s"
  by (simp add: clearExisting_def)

lemma map_of_delete_same [simp]: "map_of (AList.delete k xs) k = None"
  by (simp add: delete_conv')

text \<open>
  C9: a second \<^verbatim>\<open>stopActionOnTab\<close> for the same pair changes nothing: the whole state (timer
  registry, pending timeouts, recovery counters, stored actions, logs, badge, notifications)
  after the second call is the state after the first. The operation has no failing branch.
\<close>

theorem stopActionOnTab_idempotent:
  "stopActionOnTab actionId tabId (stopActionOnTab actionId tabId s) = stopActionOnTab actionId tabId s"
proof -
  let ?k = "timerKey actionId tabId"
  let ?s1 = "clearExisting ?k s"
  let ?s2 = "?s1\<lparr>activeTimers := AList.delete ?k (activeTimers ?s1),
                  errorRecoveryAttempts := AList.delete ?k (errorRecoveryAttempts ?s1)\<rparr>"
  let ?r = "removeActionInstance actionId tabId ?s2"
  let ?S = "stopActionOnTab actionId tabId s"
  have S: "?S = ?r\<lparr>badgeText := (if badgeCount ?r > 0 then showInt (badgeCount ?r) else [])\<rparr>"
    by (simp add: stopActionOnTab_def Let_def refreshBadge_alt updateBadge_def)
  have timers_r: "activeTimers ?r = AList.delete ?k (activeTimers ?s1)"
    by (simp add: removeActionInstance_def saveActions_def split: option.splits)
  have era_r: "errorRecoveryAttempts ?r = AList.delete ?k (errorRecoveryAttempts ?s1)"
    by (simp add: removeActionInstance_def saveActions_def split: option.splits)
  have timers: "activeTimers ?S = AList.delete ?k (activeTimers ?s1)"
    by (simp add: S timers_r)
  have era: "errorRecoveryAttempts ?S = AList.delete ?k (errorRecoveryAttempts ?s1)"
    by (simp add: S era_r)
  have c: "clearExisting ?k ?S = ?S"
    by (rule clearExisting_absent) (simp add: timers)
  have d: "?S\<lparr>activeTimers := AList.delete ?k (activeTimers ?S),
              errorRecoveryAttempts := AList.delete ?k (errorRecoveryAttempts ?S)\<rparr> = ?S"
    by (simp add: timers era delete_idem)
  have rem: "removeActionInstance actionId tabId ?S = ?S"
    by (subst (1 2) S) (simp add: removeActionInstance_badge removeActionInstance_idem)
  have bc: "badgeCount ?S = badgeCount ?r"
    by (subst S) (simp add: badgeCount_def)
  have bt: "badgeText ?S = (if badgeCount ?r > 0 then showInt (badgeCount ?r) else [])"
    by (subst S) simp
  have "stopActionOnTab actionId tabId ?S = refreshBadge ?S"
    unfolding stopActionOnTab_def [of actionId tabId ?S] Let_def c d rem ..
  also have "\<dots> = ?S\<lparr>badgeText := badgeText ?S\<rparr>"
    unfolding refreshBadge_alt updateBadge_def bc bt ..
  finally show ?thesis by simp
qed

section \<open>What each operation leaves alone\<close>


lemma getActions_fields [simp]:
  "getActions (s\<lparr>settings := x1\<rparr>) = getActions s"
  "getActions (s\<lparr>logs := x2\<rparr>) = getActions s"
  "getActions (s\<lparr>activeTimers := x3\<rparr>) = getActions s"
  "getActions (s\<lparr>errorRecoveryAttempts := x4\<rparr>) = getActions s"
  "getActions (s\<lparr>isInitialized := x5\<rparr>) = getActions s"
  "getActions (s\<lparr>pendingTimeouts := x6\<rparr>) = getActions s"
  "getActions (s\<lparr>nextTimerId := x7\<rparr>) = getActions s"
  "getActions (s\<lparr>notified := x8\<rparr>) = getActions s"
  by (simp_all add: getActions_def)

lemma updateActionInstance_frame [simp]:
  "settings (updateActionInstance aid t upd s) = settings s"
  "logs (updateActionInstance aid t upd s) = logs s"
  "activeTimers (updateActionInstance aid t upd s) = activeTimers s"
  "errorRecoveryAttempts (updateActionInstance aid t upd s) = errorRecoveryAttempts s"
  "isInitialized (updateActionInstance aid t upd s) = isInitialized s"
  "pendingTimeouts (updateActionInstance aid t upd s) = pendingTimeouts s"
  "nextTimerId (updateActionInstance aid t upd s) = nextTimerId s"
  "badgeText (updateActionInstance aid t upd s) = badgeText s"
  "notified (updateActionInstance aid t upd s) = notified s"
  by (simp_all add: updateActionInstance_def saveActions_def split: option.splits)

lemma removeActionInstance_frame [simp]:
  "settings (removeActionInstance aid t s) = settings s"
  "logs (removeActionInstance aid t s) = logs s"
  "activeTimers (removeActionInstance aid t s) = activeTimers s"
  "errorRecoveryAttempts (removeActionInstance aid t s) = errorRecoveryAttempts s"
  "isInitialized (removeActionInstance aid t s) = isInitialized s"
  "pendingTimeouts (removeActionInstance aid t s) = pendingTimeouts s"
  "nextTimerId (removeActionInstance aid t s) = nextTimerId s"
  "badgeText (removeActionInstance aid t s) = badgeText s"
  "notified (removeActionInstance aid t s) = notified s"
  by (simp_all add: removeActionInstance_def saveActions_def split: option.splits)

lemma clearExisting_frame [simp]:
  "actions (clearExisting key s) = actions s"
  "settings (clearExisting key s) = settings s"
  "logs (clearExisting key s) = logs s"
  "activeTimers (clearExisting key s) = activeTimers s"
  "errorRecoveryAttempts (clearExisting key s) = errorRecoveryAttempts s"
  "isInitialized (clearExisting key s) = isInitialized s"
  "nextTimerId (clearExisting key s) = nextTimerId s"
  "badgeText (clearExisting key s) = badgeText s"
  "notified (clearExisting key s) = notified s"
  by (simp_all add: clearExisting_def clearTimeout_def split: option.splits)

lemma getActions_clearExisting [simp]: "getActions (clearExisting key s) = getActions s"
  by (simp add: getActions_def)

lemma refreshBadge_frame [simp]:
  "actions (refreshBadge s) = actions s"
  "settings (refreshBadge s) = settings s"
  "logs (refreshBadge s) = logs s"
  "activeTimers (refreshBadge s) = activeTimers s"
  "errorRecoveryAttempts (refreshBadge s) = errorRecoveryAttempts s"
  "isInitialized (refreshBadge s) = isInitialized s"
  "pendingTimeouts (refreshBadge s) = pendingTimeouts s"
  "nextTimerId (refreshBadge s) = nextTimerId s"
  "notified (refreshBadge s) = notified s"
  by (simp_all add: refreshBadge_def updateBadge_def)

lemma getActions_refreshBadge [simp]: "getActions (refreshBadge s) = getActions s"
  by (simp add: getActions_def)

lemma updateBadge_frame [simp]:
  "actions (updateBadge n s) = actions s"
  "settings (updateBadge n s) = settings s"
  "logs (updateBadge n s) = logs s"
  "activeTimers (updateBadge n s) = activeTimers s"
  "errorRecoveryAttempts (updateBadge n s) = errorRecoveryAttempts s"
  "isInitialized (updateBadge n s) = isInitialized s"
  "pendingTimeouts (updateBadge n s) = pendingTimeouts s"
  "nextTimerId (updateBadge n s) = nextTimerId s"
  "notified (updateBadge n s) = notified s"
  by (simp_all add: updateBadge_def)

lemma getActions_updateBadge [simp]: "getActions (updateBadge n s) = getActions s"
  by (simp add: getActions_def)

text \<open>A scheduling that does not throw, field by field.\<close>

lemma scheduleActionOnTab_Inl:
  "scheduleActionOnTab a t now r s = Inl e \<longleftrightarrow>
     (calculateInterval a r < MIN_INTERVAL_MS \<or> MAX_INTERVAL_MS < calculateInterval a r)
     \<and> e = ''Invalid interval: '' @ showInt (calculateInterval a r) @ ''ms''"
  by (auto simp: scheduleActionOnTab_def Let_def split: prod.splits)

lemma scheduleActionOnTab_Inr:
  assumes "scheduleActionOnTab a t now r s = Inr s'"
  shows "MIN_INTERVAL_MS \<le> calculateInterval a r" "calculateInterval a r \<le> MAX_INTERVAL_MS"
    and "getActions s' = updFirst (action_id a)
           (updInst t (\<lambda>i. i\<lparr>nextExecution := Some (now + calculateInterval a r)\<rparr>)) (getActions s)"
    and "activeTimers s' = AList.update (timerKey (action_id a) t)
           \<lparr>timerId = nextTimerId s, t_nextExecution = now + calculateInterval a r,
            intervalMs = calculateInterval a r, t_actionId = action_id a, t_tabId = t\<rparr>
           (activeTimers s)"
    and "pendingTimeouts s' = fmupd (nextTimerId s) (action_id a, t)
           (pendingTimeouts (clearExisting (timerKey (action_id a) t) s))"
    and "nextTimerId s' = Suc (nextTimerId s)"
    and "errorRecoveryAttempts s' = errorRecoveryAttempts s"
    and "settings s' = settings s" and "logs s' = logs s" and "notified s' = notified s"
    and "isInitialized s' = isInitialized s" and "badgeText s' = badgeText s"
  using assms
  by (auto simp: scheduleActionOnTab_def Let_def setTimeout_def getActions_updateActionInstance
           split: prod.splits if_splits)

section \<open>Starting an instance\<close>

lemma addInst_id [simp]: "action_id (addInst t v a) = action_id a"
  by (simp add: addInst_def)

lemma addActionInstance_existing:
  assumes "findAction aid (getActions s) = Some a" and "fmlookup (instances a) t = Some old"
    and "0 < t"
  shows "addActionInstance aid t title now s
           = Inr (saveActions (updFirst aid (addInst t (newInstance t title now)) (getActions s)) s)"
proof -
  have "validateAction a" using assms(1) by (rule findAction_valid)
  moreover have "action_id a = aid" using assms(1) by (rule findAction_id)
  ultimately have "aid \<noteq> []" by (auto simp: validateAction_def)
  then show ?thesis using assms
    by (simp add: addActionInstance_def addInst_def [abs_def])
qed

lemma addInst_list_valid:
  assumes "findAction aid (getActions s) = Some a" and "fmlookup (instances a) t = Some old"
  shows "list_all validateAction (updFirst aid (addInst t v) (getActions s))"
proof (rule updFirst_valid [OF getActions_valid])
  fix a' assume "findAction aid (getActions s) = Some a'"
  with assms have "a' = a" by simp
  then show "validateAction (addInst t v a')"
    using assms findAction_valid [OF assms(1)] by (simp add: addInst_def valid_upd_present)
qed

lemma lookup_updInst:
  "fmlookup (instances (updInst t upd a)) t = map_option upd (fmlookup (instances a) t)"
  by (simp add: updInst_def split: option.splits)

text \<open>
  C10: a start for a pair whose instance exists overwrites the stored instance with a new
  one: enabled, \<^verbatim>\<open>executionCount\<close> 0, \<^verbatim>\<open>startedAt\<close> the current time, no \<^verbatim>\<open>lastExecuted\<close>.
  \<^verbatim>\<open>addActionInstance\<close> does not throw, however many instances the action holds, and the
  overwrite stays whether the scheduling that follows succeeds or throws.
\<close>

theorem startActionOnTab_recreates:
  assumes "findAction actionId (getActions s) = Some action"
    and "fmlookup (instances action) tabId = Some old"
    and "0 < tabId"
  shows "(\<exists>s1 a1. addActionInstance actionId tabId title now s = Inr s1
            \<and> findAction actionId (getActions s1) = Some a1
            \<and> fmlookup (instances a1) tabId = Some (newInstance tabId title now))
       \<and> (\<exists>a2 inst. findAction actionId
              (getActions (snd (startActionOnTab actionId tabId givenTitle tabLookup now rnd s)))
                = Some a2
            \<and> fmlookup (instances a2) tabId = Some inst
            \<and> enabled inst \<and> executionCount inst = 0 \<and> startedAt inst = now
            \<and> lastExecuted inst = None)"
proof -
  have add: "\<And>title s0. getActions s0 = getActions s \<Longrightarrow>
      \<exists>s1. addActionInstance actionId tabId title now s0 = Inr s1
        \<and> getActions s1 = updFirst actionId (addInst tabId (newInstance tabId title now)) (getActions s)
        \<and> findAction actionId (getActions s1) = Some (addInst tabId (newInstance tabId title now) action)"
  proof -
    fix title s0 assume g: "getActions s0 = getActions s"
    let ?acts = "updFirst actionId (addInst tabId (newInstance tabId title now)) (getActions s)"
    have "addActionInstance actionId tabId title now s0 = Inr (saveActions ?acts s0)"
      using addActionInstance_existing [of actionId s0 action tabId old title now] assms g by simp
    moreover have "getActions (saveActions ?acts s0) = ?acts"
      by (rule getActions_saveActions) (rule addInst_list_valid [OF assms(1,2)])
    moreover have "findAction actionId ?acts = Some (addInst tabId (newInstance tabId title now) action)"
      using assms(1) by (simp add: findAction_updFirst_same)
    ultimately show "\<exists>s1. addActionInstance actionId tabId title now s0 = Inr s1
        \<and> getActions s1 = ?acts
        \<and> findAction actionId (getActions s1) = Some (addInst tabId (newInstance tabId title now) action)"
      by simp
  qed
  have first: "\<exists>s1 a1. addActionInstance actionId tabId title now s = Inr s1
            \<and> findAction actionId (getActions s1) = Some a1
            \<and> fmlookup (instances a1) tabId = Some (newInstance tabId title now)"
    using add [of s title] by (auto simp: addInst_def)
  let ?s0 = "if \<not> globalEnabled (settings s)
             then (saveSettings (\<lambda>st. st\<lparr>globalEnabled := True\<rparr>) s)\<lparr>isInitialized := False\<rparr>
             else s"
  have g0: "getActions ?s0 = getActions s" by (simp add: saveSettings_def)
  define ttl where "ttl = (case givenTitle of
                         Some t \<Rightarrow> if t \<noteq> [] then t
                                   else (case tabLookup of None \<Rightarrow> ''Tab '' @ showInt tabId
                                         | Some tab \<Rightarrow> if tab_title tab \<noteq> [] then tab_title tab else ''Tab '' @ showInt tabId)
                       | None \<Rightarrow> (case tabLookup of None \<Rightarrow> ''Tab '' @ showInt tabId
                                   | Some tab \<Rightarrow> if tab_title tab \<noteq> [] then tab_title tab else ''Tab '' @ showInt tabId))"
  from add [OF g0, of ttl] obtain s1 where
    s1: "addActionInstance actionId tabId ttl now ?s0 = Inr s1"
    and f1: "findAction actionId (getActions s1) = Some (addInst tabId (newInstance tabId ttl now) action)"
    by blast
  have start: "startActionOnTab actionId tabId givenTitle tabLookup now rnd s
      = (case scheduleActionOnTab action tabId now rnd s1 of
           Inl m \<Rightarrow> (StartFailure m ''START_ERROR'', s1)
         | Inr s3 \<Rightarrow> (StartSuccess, refreshBadge s3))"
    using assms(1) s1 unfolding startActionOnTab_def Let_def ttl_def by simp
  have aid: "action_id action = actionId" using assms(1) by (rule findAction_id)
  have second: "\<exists>a2 inst. findAction actionId
              (getActions (snd (startActionOnTab actionId tabId givenTitle tabLookup now rnd s)))
                = Some a2
            \<and> fmlookup (instances a2) tabId = Some inst
            \<and> enabled inst \<and> executionCount inst = 0 \<and> startedAt inst = now
            \<and> lastExecuted inst = None"
  proof (cases "scheduleActionOnTab action tabId now rnd s1")
    case (Inl m)
    then show ?thesis using f1 by (simp add: start addInst_def newInstance_def)
  next
    case (Inr s3)
    have "findAction actionId (getActions s3)
        = Some (updInst tabId (\<lambda>i. i\<lparr>nextExecution := Some (now + calculateInterval action rnd)\<rparr>)
                  (addInst tabId (newInstance tabId ttl now) action))"
      using scheduleActionOnTab_Inr(3) [OF Inr] f1 by (simp add: aid findAction_updFirst_same)
    then show ?thesis using Inr
      by (simp add: start lookup_updInst addInst_def newInstance_def)
  qed
  from first second show ?thesis by (rule conjI)
qed

theorem startActionOnTab_recreates_witness:
  "fcard (fmdom (instances ex_fullAction)) = MAX_INSTANCES_PER_ACTION
   \<and> findAction ''a1'' (getActions ex_fullState) = Some ex_fullAction
   \<and> fmlookup (instances ex_fullAction) 3 = Some (ex_instance 17)
   \<and> (0::int) < 3
   \<and> (\<exists>a2 inst. findAction ''a1''
          (getActions (snd (startActionOnTab ''a1'' 3 None None 5000 0 ex_fullState))) = Some a2
        \<and> fmlookup (instances a2) 3 = Some inst
        \<and> enabled inst \<and> executionCount inst = 0 \<and> startedAt inst = 5000
        \<and> lastExecuted inst = None)"
proof -
  have c: "fcard (fmdom (instances ex_fullAction)) = MAX_INSTANCES_PER_ACTION" by code_simp
  have f: "findAction ''a1'' (getActions ex_fullState) = Some ex_fullAction" by code_simp
  have l: "fmlookup (instances ex_fullAction) 3 = Some (ex_instance 17)" by code_simp
  have p: "(0::int) < 3" by simp
  show ?thesis
    using c f l p startActionOnTab_recreates [OF f l p, of "''Tab 3''" 5000 None None 0]
    by blast
qed

section \<open>The paths of the cycle\<close>

lemma stopActionOnTab_frame [simp]:
  "getActions (stopActionOnTab aid t s) = updFirst aid (dropInst t) (getActions s)"
  "activeTimers (stopActionOnTab aid t s) = AList.delete (timerKey aid t) (activeTimers s)"
  "errorRecoveryAttempts (stopActionOnTab aid t s) = AList.delete (timerKey aid t) (errorRecoveryAttempts s)"
  "pendingTimeouts (stopActionOnTab aid t s) = pendingTimeouts (clearExisting (timerKey aid t) s)"
  "nextTimerId (stopActionOnTab aid t s) = nextTimerId s"
  "settings (stopActionOnTab aid t s) = settings s"
  "logs (stopActionOnTab aid t s) = logs s"
  "notified (stopActionOnTab aid t s) = notified s"
  "isInitialized (stopActionOnTab aid t s) = isInitialized s"
  by (simp_all add: stopActionOnTab_def Let_def getActions_removeActionInstance)

lemma addLog_frame [simp]:
  "getActions (addLog e now s) = getActions s"
  "activeTimers (addLog e now s) = activeTimers s"
  "errorRecoveryAttempts (addLog e now s) = errorRecoveryAttempts s"
  "pendingTimeouts (addLog e now s) = pendingTimeouts s"
  "nextTimerId (addLog e now s) = nextTimerId s"
  "settings (addLog e now s) = settings s"
  "notified (addLog e now s) = notified s"
  "isInitialized (addLog e now s) = isInitialized s"
  "badgeText (addLog e now s) = badgeText s"
  by (simp_all add: addLog_def Let_def getActions_def)

lemma addLog_logs:
  "logs (addLog e now s) = take (maxLogs (settings s)) (e\<lparr>l_timestamp := now\<rparr> # logs s)"
  by (simp add: addLog_def Let_def)

lemma notifyCompletion_frame [simp]:
  "getActions (notifyCompletion n r s) = getActions s"
  "activeTimers (notifyCompletion n r s) = activeTimers s"
  "errorRecoveryAttempts (notifyCompletion n r s) = errorRecoveryAttempts s"
  "pendingTimeouts (notifyCompletion n r s) = pendingTimeouts s"
  "nextTimerId (notifyCompletion n r s) = nextTimerId s"
  "settings (notifyCompletion n r s) = settings s"
  "logs (notifyCompletion n r s) = logs s"
  "isInitialized (notifyCompletion n r s) = isInitialized s"
  "badgeText (notifyCompletion n r s) = badgeText s"
  by (simp_all add: notifyCompletion_def getActions_def)

lemma notifyProgress_frame [simp]:
  "getActions (notifyProgress a n tab s) = getActions s"
  "activeTimers (notifyProgress a n tab s) = activeTimers s"
  "errorRecoveryAttempts (notifyProgress a n tab s) = errorRecoveryAttempts s"
  "pendingTimeouts (notifyProgress a n tab s) = pendingTimeouts s"
  "nextTimerId (notifyProgress a n tab s) = nextTimerId s"
  "settings (notifyProgress a n tab s) = settings s"
  "logs (notifyProgress a n tab s) = logs s"
  "isInitialized (notifyProgress a n tab s) = isInitialized s"
  "badgeText (notifyProgress a n tab s) = badgeText s"
  by (simp_all add: notifyProgress_def getActions_def)

lemma reschedule_valid:
  assumes "intervalValid action (env_rnd env)"
  shows "scheduleActionOnTab action tabId (env_now env) (env_rnd env) s
           = Inr (reschedule action actionId tabId env s)"
proof (cases "scheduleActionOnTab action tabId (env_now env) (env_rnd env) s")
  case (Inl e)
  then show ?thesis using assms by (auto simp: scheduleActionOnTab_Inl intervalValid_def)
next
  case (Inr s')
  then show ?thesis by (simp add: reschedule_def)
qed

lemma cycle_failed:
  assumes "cycleLive actionId tabId action inst s" and "dispatchOutcome action env = Failed msg"
  shows "executeAndRescheduleOnTab actionId tabId env s
           = (if storedAttempts (timerKey actionId tabId) s + 1 \<ge> MAX_RECOVERY_ATTEMPTS
              then addLog (terminalLog action actionId tabId msg) (env_now env)
                     (stopActionOnTab actionId tabId s)
              else reschedule action actionId tabId env
                     (s\<lparr>errorRecoveryAttempts :=
                          AList.update (timerKey actionId tabId)
                            (storedAttempts (timerKey actionId tabId) s + 1)
                            (errorRecoveryAttempts s)\<rparr>))"
  using assms
  by (auto simp: executeAndRescheduleOnTab_def cycleLive_def dispatchOutcome_def Let_def
           split: option.splits if_splits sum.splits)

lemma cycle_succeeded:
  assumes "cycleLive actionId tabId action inst s" and "dispatchOutcome action env = Succeeded d"
  shows "\<exists>tab. env_tab env = Some tab \<and> executeAndRescheduleOnTab actionId tabId env s
           = afterSuccess action inst tab (settings s) actionId tabId env s"
  using assms
  by (auto simp: executeAndRescheduleOnTab_def cycleLive_def dispatchOutcome_def Let_def
           split: option.splits if_splits sum.splits)

lemma storedAttempts_update [simp]:
  "storedAttempts key (s\<lparr>errorRecoveryAttempts := AList.update key n (errorRecoveryAttempts s)\<rparr>) = n"
  by (simp add: storedAttempts_def update_conv')

lemma calculateInterval_instances [simp]:
  "calculateInterval (a\<lparr>instances := m\<rparr>) r = calculateInterval a r"
  by (simp add: calculateInterval_def Let_def)

lemma calculateInterval_config [simp]:
  "calculateInterval (updInst t upd a) r = calculateInterval a r"
  by (simp add: updInst_def split: option.splits)

lemma intervalValid_config [simp]: "intervalValid (updInst t upd a) r = intervalValid a r"
  by (simp add: intervalValid_def)

lemma filterSkips_config [simp]: "filterSkips (updInst t upd a) tab = filterSkips a tab"
  by (simp add: filterSkips_def updInst_def split: option.splits)

lemma executeAction_config [simp]:
  "executeAction (updInst t upd a) tab inject = executeAction a tab inject"
  by (simp add: executeAction_def)

lemma dispatchOutcome_config [simp]: "dispatchOutcome (updInst t upd a) env = dispatchOutcome a env"
  by (simp add: dispatchOutcome_def split: option.splits)

lemma terminalLog_config [simp]:
  "terminalLog (updInst t upd a) aid tid msg = terminalLog a aid tid msg"
  by (simp add: terminalLog_def updInst_def split: option.splits)

text \<open>A failed dispatch below the limit: the counter is stored and the pair is re-armed.\<close>

lemma cycle_retry:
  assumes live: "cycleLive actionId tabId action inst s"
    and fail: "dispatchOutcome action env = Failed msg"
    and low: "storedAttempts (timerKey actionId tabId) s + 1 < MAX_RECOVERY_ATTEMPTS"
    and valid: "intervalValid action (env_rnd env)"
  defines "s' \<equiv> executeAndRescheduleOnTab actionId tabId env s"
  defines "upd \<equiv> (\<lambda>i. i\<lparr>nextExecution := Some (env_now env + calculateInterval action (env_rnd env))\<rparr>)"
  shows "cycleLive actionId tabId (updInst tabId upd action) (upd inst) s'"
    and "storedAttempts (timerKey actionId tabId) s' = storedAttempts (timerKey actionId tabId) s + 1"
    and "logs s' = logs s" and "settings s' = settings s" and "notified s' = notified s"
proof -
  let ?k = "timerKey actionId tabId"
  let ?s1 = "s\<lparr>errorRecoveryAttempts :=
                 AList.update ?k (storedAttempts ?k s + 1) (errorRecoveryAttempts s)\<rparr>"
  have aid: "action_id action = actionId" using live by (auto simp: cycleLive_def dest: findAction_id)
  have "s' = reschedule action actionId tabId env ?s1"
    unfolding s'_def using cycle_failed [OF live fail] low by simp
  then have sch: "scheduleActionOnTab action tabId (env_now env) (env_rnd env) ?s1 = Inr s'"
    using reschedule_valid [OF valid] by simp
  note facts = scheduleActionOnTab_Inr [OF sch]
  have g: "getActions s' = updFirst actionId (updInst tabId upd) (getActions s)"
    using facts(3) by (simp add: aid upd_def)
  have "findAction actionId (getActions s') = Some (updInst tabId upd action)"
    using live by (simp add: g cycleLive_def findAction_updFirst_same)
  moreover have "fmlookup (instances (updInst tabId upd action)) tabId = Some (upd inst)"
    using live by (simp add: cycleLive_def lookup_updInst)
  moreover have "enabled (upd inst)" using live by (simp add: cycleLive_def upd_def)
  moreover have se: "settings s' = settings s" using facts(8) by simp
  ultimately show "cycleLive actionId tabId (updInst tabId upd action) (upd inst) s'"
    using live by (simp add: cycleLive_def)
  show "storedAttempts ?k s' = storedAttempts ?k s + 1"
    using facts(7) by (simp add: storedAttempts_def update_conv')
  show "logs s' = logs s" using facts(9) by simp
  show "settings s' = settings s" by (rule se)
  show "notified s' = notified s" using facts(10) by simp
qed

section \<open>Recovery controller\<close>

lemma findAction_drop:
  "findAction aid (getActions s) = Some a \<Longrightarrow>
   findAction aid (updFirst aid (dropInst t) (getActions s)) = Some (dropInst t a)"
  by (simp add: findAction_updFirst_same)

text \<open>A failed dispatch that reaches the limit: the terminal branch.\<close>

lemma cycle_abort:
  assumes live: "cycleLive actionId tabId action inst s"
    and fail: "dispatchOutcome action env = Failed msg"
    and top: "storedAttempts (timerKey actionId tabId) s + 1 \<ge> MAX_RECOVERY_ATTEMPTS"
  defines "s' \<equiv> executeAndRescheduleOnTab actionId tabId env s"
  shows "findAction actionId (getActions s') = Some (dropInst tabId action)"
    and "logs s' = take (maxLogs (settings s))
                     ((terminalLog action actionId tabId msg)\<lparr>l_timestamp := env_now env\<rparr> # logs s)"
    and "map_of (errorRecoveryAttempts s') (timerKey actionId tabId) = None"
    and "map_of (activeTimers s') (timerKey actionId tabId) = None"
    and "nextTimerId s' = nextTimerId s"
    and "pendingTimeouts s' = pendingTimeouts (clearExisting (timerKey actionId tabId) s)"
    and "notified s' = notified s"
proof -
  have s': "s' = addLog (terminalLog action actionId tabId msg) (env_now env)
                   (stopActionOnTab actionId tabId s)"
    unfolding s'_def using cycle_failed [OF live fail] top by simp
  show "findAction actionId (getActions s') = Some (dropInst tabId action)"
    using live by (simp add: s' cycleLive_def findAction_drop)
  show "logs s' = take (maxLogs (settings s))
                     ((terminalLog action actionId tabId msg)\<lparr>l_timestamp := env_now env\<rparr> # logs s)"
    by (simp add: s' addLog_logs)
  show "map_of (errorRecoveryAttempts s') (timerKey actionId tabId) = None"
    by (simp add: s')
  show "map_of (activeTimers s') (timerKey actionId tabId) = None"
    by (simp add: s')
  show "nextTimerId s' = nextTimerId s" by (simp add: s')
  show "pendingTimeouts s' = pendingTimeouts (clearExisting (timerKey actionId tabId) s)"
    by (simp add: s')
  show "notified s' = notified s" by (simp add: s')
qed

text \<open>
  C5: three dispatch failures in a row for a pair with no failure stored. The first two
  re-arm the pair; the third removes the stored instance, puts one entry at the head of
  the log whose error is \<^verbatim>\<open>Max recovery attempts reached:\<close> followed by the message of the
  third error, deletes the recovery counter and the registry entry of the pair, and sets
  no timeout.
\<close>

theorem three_failures_abort:
  assumes live: "cycleLive actionId tabId action inst s"
    and none: "storedAttempts (timerKey actionId tabId) s = 0"
    and f1: "dispatchOutcome action e1 = Failed m1" and v1: "intervalValid action (env_rnd e1)"
    and f2: "dispatchOutcome action e2 = Failed m2" and v2: "intervalValid action (env_rnd e2)"
    and f3: "dispatchOutcome action e3 = Failed m3"
    and room: "0 < maxLogs (settings s)"
  shows "let key = timerKey actionId tabId;
             s2 = executeAndRescheduleOnTab actionId tabId e2
                    (executeAndRescheduleOnTab actionId tabId e1 s);
             s3 = executeAndRescheduleOnTab actionId tabId e3 s2
         in (\<exists>a'. findAction actionId (getActions s3) = Some a' \<and> fmlookup (instances a') tabId = None)
          \<and> logs s3 = take (maxLogs (settings s))
                         ((terminalLog action actionId tabId m3)\<lparr>l_timestamp := env_now e3\<rparr> # logs s)
          \<and> l_error (hd (logs s3)) = Some (''Max recovery attempts reached: '' @ m3)
          \<and> map_of (errorRecoveryAttempts s3) key = None
          \<and> map_of (activeTimers s3) key = None
          \<and> nextTimerId s3 = nextTimerId s2
          \<and> pendingTimeouts s3 = pendingTimeouts (clearExisting key s2)"
proof -
  let ?k = "timerKey actionId tabId"
  let ?s1 = "executeAndRescheduleOnTab actionId tabId e1 s"
  let ?s2 = "executeAndRescheduleOnTab actionId tabId e2 ?s1"
  let ?s3 = "executeAndRescheduleOnTab actionId tabId e3 ?s2"
  let ?u1 = "\<lambda>i. i\<lparr>nextExecution := Some (env_now e1 + calculateInterval action (env_rnd e1))\<rparr>"
  let ?a1 = "updInst tabId ?u1 action"
  let ?u2 = "\<lambda>i. i\<lparr>nextExecution := Some (env_now e2 + calculateInterval ?a1 (env_rnd e2))\<rparr>"
  let ?a2 = "updInst tabId ?u2 ?a1"
  have low1: "storedAttempts ?k s + 1 < MAX_RECOVERY_ATTEMPTS"
    using none by (simp add: MAX_RECOVERY_ATTEMPTS_def)
  note r1 = cycle_retry [OF live f1 low1 v1]
  have low2: "storedAttempts ?k ?s1 + 1 < MAX_RECOVERY_ATTEMPTS"
    using none r1(2) by (simp add: MAX_RECOVERY_ATTEMPTS_def)
  have f2': "dispatchOutcome ?a1 e2 = Failed m2" using f2 by simp
  have v2': "intervalValid ?a1 (env_rnd e2)" using v2 by simp
  note r2 = cycle_retry [OF r1(1) f2' low2 v2']
  have top: "storedAttempts ?k ?s2 + 1 \<ge> MAX_RECOVERY_ATTEMPTS"
    using none r1(2) r2(2) by (simp add: MAX_RECOVERY_ATTEMPTS_def)
  have f3': "dispatchOutcome ?a2 e3 = Failed m3" using f3 by simp
  note ab = cycle_abort [OF r2(1) f3' top]
  have gone: "\<exists>a'. findAction actionId (getActions ?s3) = Some a' \<and> fmlookup (instances a') tabId = None"
    using ab(1) by (simp add: dropInst_def)
  have lg: "logs ?s3 = take (maxLogs (settings s))
                         ((terminalLog action actionId tabId m3)\<lparr>l_timestamp := env_now e3\<rparr> # logs s)"
    using ab(2) r1(3,4) r2(3,4) by simp
  have hd: "l_error (hd (logs ?s3)) = Some (''Max recovery attempts reached: '' @ m3)"
    using room by (cases "maxLogs (settings s)") (simp_all add: lg terminalLog_def)
  show ?thesis
    unfolding Let_def using gone lg hd ab(3,4,5,6) by simp
qed

theorem three_failures_abort_witness:
  "cycleLive ''a1'' 42 ex_action ex_inst ex_state
   \<and> storedAttempts (timerKey ''a1'' 42) ex_state = 0
   \<and> dispatchOutcome ex_action (ex_envFail ''frame detached'' 6000) = Failed ''Script injection failed: frame detached''
   \<and> dispatchOutcome ex_action (ex_envFail ''no tab'' 16000) = Failed ''Script injection failed: no tab''
   \<and> intervalValid ex_action 0
   \<and> 0 < maxLogs (settings ex_state)
   \<and> (let s3 = executeAndRescheduleOnTab ''a1'' 42 (ex_envFail ''no tab'' 16000)
                  (executeAndRescheduleOnTab ''a1'' 42 (ex_envFail ''frame detached'' 11000)
                    (executeAndRescheduleOnTab ''a1'' 42 (ex_envFail ''frame detached'' 6000) ex_state))
       in (\<exists>a'. findAction ''a1'' (getActions s3) = Some a' \<and> fmlookup (instances a') 42 = None)
        \<and> map (\<lambda>e. (l_error e, l_timestamp e)) (logs s3)
            = [(Some ''Max recovery attempts reached: Script injection failed: no tab'', 16000)]
        \<and> map_of (errorRecoveryAttempts s3) (timerKey ''a1'' 42) = None
        \<and> map_of (activeTimers s3) (timerKey ''a1'' 42) = None)"
proof -
  have live: "cycleLive ''a1'' 42 ex_action ex_inst ex_state"
    by code_simp
  have none: "storedAttempts (timerKey ''a1'' 42) ex_state = 0" by code_simp
  have f1: "dispatchOutcome ex_action (ex_envFail ''frame detached'' 6000)
              = Failed ''Script injection failed: frame detached''" by code_simp
  have f2: "dispatchOutcome ex_action (ex_envFail ''frame detached'' 11000)
              = Failed ''Script injection failed: frame detached''" by code_simp
  have f3: "dispatchOutcome ex_action (ex_envFail ''no tab'' 16000)
              = Failed ''Script injection failed: no tab''" by code_simp
  have v: "intervalValid ex_action 0" by code_simp
  have v1: "intervalValid ex_action (env_rnd (ex_envFail ''frame detached'' 6000))"
    using v by (simp add: ex_envFail_def)
  have v2: "intervalValid ex_action (env_rnd (ex_envFail ''frame detached'' 11000))"
    using v by (simp add: ex_envFail_def)
  have room: "0 < maxLogs (settings ex_state)" by code_simp
  have lg: "logs ex_state = []" by (simp add: ex_state_def)
  have ts: "env_now (ex_envFail ''no tab'' 16000) = 16000" by (simp add: ex_envFail_def)
  have ml: "maxLogs (settings ex_state) = 100" by (simp add: ex_state_def ex_settings_def)
  show ?thesis
    using three_failures_abort [OF live none f1 v1 f2 v2 f3 room] live none f1 f3 v room
    unfolding Let_def by (simp add: lg ts ml terminalLog_def)
qed

text \<open>
  C2: after a dispatch that succeeds, the stored recovery counter of the pair is zero; two
  failures, a success and one more failure leave the pair degraded with one failure. The
  code does otherwise: the success sets the local variable \<^verbatim>\<open>attempts\<close> to 0 and never
  writes it to \<^verbatim>\<open>errorRecoveryAttempts\<close>. Here the action on tab 42 fails twice and then
  succeeds (the execution count becomes 1): the stored counter is still 2, and the next
  failure removes the instance and logs the terminal entry.
\<close>

theorem recovery_counter_survives_success:
  "dispatchOutcome ex_action (ex_envOk 16000) = Succeeded Injected
   \<and> map_option (\<lambda>a. map_option executionCount (fmlookup (instances a) 42))
        (findAction ''a1'' (getActions afterFailFailOk)) = Some (Some 1)
   \<and> map_of (errorRecoveryAttempts afterFailFailOk) (timerKey ''a1'' 42) = Some 2
   \<and> map_option (\<lambda>a. fmlookup (instances a) 42)
        (findAction ''a1'' (getActions
           (executeAndRescheduleOnTab ''a1'' 42 (ex_envFail ''frame detached'' 21000) afterFailFailOk)))
        = Some None
   \<and> map l_error (logs (executeAndRescheduleOnTab ''a1'' 42 (ex_envFail ''frame detached'' 21000)
                           afterFailFailOk))
        = [Some ''Max recovery attempts reached: Script injection failed: frame detached'']"
  by code_simp

section \<open>Limit evaluator\<close>

lemma storedInstance_live:
  "cycleLive aid t a i s \<Longrightarrow> storedInstance aid t s = Some (Some i)"
  by (simp add: cycleLive_def storedInstance_def)

lemma storedInstance_stop:
  "findAction aid (getActions s) = Some a \<Longrightarrow> storedInstance aid t (stopActionOnTab aid t s) = Some None"
  by (simp add: storedInstance_def findAction_updFirst_same dropInst_def)

lemma storedInstance_update:
  "storedInstance aid t (updateActionInstance aid t upd s) = map_option (map_option upd) (storedInstance aid t s)"
  by (simp add: storedInstance_def getActions_updateActionInstance findAction_updFirst_same
        lookup_updInst option.map_comp comp_def)

lemma storedInstance_fields [simp]:
  "storedInstance aid t (s\<lparr>errorRecoveryAttempts := x\<rparr>) = storedInstance aid t s"
  "storedInstance aid t (s\<lparr>activeTimers := y\<rparr>) = storedInstance aid t s"
  "storedInstance aid t (notifyProgress a n tab s) = storedInstance aid t s"
  "storedInstance aid t (notifyCompletion nm r s) = storedInstance aid t s"
  "storedInstance aid t (addLog e now s) = storedInstance aid t s"
  by (simp_all add: storedInstance_def)

lemma storedInstance_schedule:
  assumes "scheduleActionOnTab a t now r s = Inr s'"
  shows "storedInstance (action_id a) t s'
           = map_option (map_option (\<lambda>i. i\<lparr>nextExecution := Some (now + calculateInterval a r)\<rparr>))
               (storedInstance (action_id a) t s)"
  using scheduleActionOnTab_Inr(3) [OF assms]
  by (simp add: storedInstance_def findAction_updFirst_same lookup_updInst option.map_comp comp_def)

lemma map_of_schedule:
  assumes "scheduleActionOnTab a t now r s = Inr s'"
  shows "map_of (activeTimers s') (timerKey (action_id a) t)
           = Some \<lparr>timerId = nextTimerId s, t_nextExecution = now + calculateInterval a r,
                   intervalMs = calculateInterval a r, t_actionId = action_id a, t_tabId = t\<rparr>"
    and "fmlookup (pendingTimeouts s') (nextTimerId s) = Some (action_id a, t)"
  using scheduleActionOnTab_Inr(4,5) [OF assms] by (simp_all add: update_conv')

lemma completions_fields [simp]:
  "completions (notifyProgress a n tab s) = completions s"
  "completions (s\<lparr>errorRecoveryAttempts := x\<rparr>) = completions s"
  "completions (updateActionInstance aid t upd s) = completions s"
  by (simp_all add: completions_def notifyProgress_def)

lemma completions_schedule:
  "scheduleActionOnTab a t now r s = Inr s' \<Longrightarrow> completions s' = completions s"
  using scheduleActionOnTab_Inr(10) by (simp add: completions_def)

text \<open>The \<^verbatim>\<open>catch\<close> block, when its own scheduling succeeds and when it cleans up.\<close>

lemma recoverCycle_rearm:
  assumes "findAction aid (getActions s) = Some a"
    and "storedAttempts (timerKey aid t) s + 1 < MAX_RECOVERY_ATTEMPTS"
    and "intervalValid a (env_rnd2 env)"
  shows "scheduleActionOnTab a t (env_now env) (env_rnd2 env)
           (s\<lparr>errorRecoveryAttempts := AList.update (timerKey aid t)
                 (storedAttempts (timerKey aid t) s + 1) (errorRecoveryAttempts s)\<rparr>)
         = Inr (recoverCycle aid t env s)"
proof -
  let ?s1 = "s\<lparr>errorRecoveryAttempts := AList.update (timerKey aid t)
                 (storedAttempts (timerKey aid t) s + 1) (errorRecoveryAttempts s)\<rparr>"
  obtain s2 where s2: "scheduleActionOnTab a t (env_now env) (env_rnd2 env) ?s1 = Inr s2"
    using assms(3) scheduleActionOnTab_Inl [of a t "env_now env" "env_rnd2 env" ?s1]
    by (cases "scheduleActionOnTab a t (env_now env) (env_rnd2 env) ?s1")
       (auto simp: intervalValid_def)
  then show ?thesis using assms(1,2) by (simp add: recoverCycle_def Let_def)
qed

lemma recoverCycle_cleanup:
  assumes "findAction aid (getActions s) = Some a"
    and "\<not> (storedAttempts (timerKey aid t) s + 1 < MAX_RECOVERY_ATTEMPTS \<and> intervalValid a (env_rnd2 env))"
  shows "recoverCycle aid t env s
           = stopActionOnTab aid t
               (s\<lparr>errorRecoveryAttempts := AList.update (timerKey aid t)
                     (storedAttempts (timerKey aid t) s + 1) (errorRecoveryAttempts s),
                  activeTimers := AList.delete (timerKey aid t) (activeTimers s)\<rparr>)"
proof (cases "storedAttempts (timerKey aid t) s + 1 < MAX_RECOVERY_ATTEMPTS")
  case True
  then have "\<not> intervalValid a (env_rnd2 env)" using assms(2) by simp
  then obtain e where "scheduleActionOnTab a t (env_now env) (env_rnd2 env)
           (s\<lparr>errorRecoveryAttempts := AList.update (timerKey aid t)
                 (storedAttempts (timerKey aid t) s + 1) (errorRecoveryAttempts s)\<rparr>) = Inl e"
    by (auto simp: scheduleActionOnTab_Inl intervalValid_def)
  then show ?thesis using True assms(1) by (simp add: recoverCycle_def Let_def)
next
  case False
  then show ?thesis by (simp add: recoverCycle_def Let_def)
qed

lemma success_path:
  fixes tab :: Tab and env :: CycleEnv
  assumes live: "cycleLive aid t a i s"
  defines "n \<equiv> executionCount i + 1"
  defines "s' \<equiv> afterSuccess a i tab (settings s) aid t env s"
  defines "key \<equiv> timerKey aid t"
  defines "counted \<equiv> i\<lparr>executionCount := n, lastExecuted := Some (env_now env)\<rparr>"
  shows "repeatLimitReached a n \<Longrightarrow>
           storedInstance aid t s' = Some None \<and> map_of (activeTimers s') key = None
           \<and> nextTimerId s' = nextTimerId s
           \<and> notified s' = notified s @ [Notification ''Task Completed''
                (completionMessage (action_name a) (showInt n @ '' executions on tab'')) False]"
    and "\<not> repeatLimitReached a n \<Longrightarrow> timeLimitReached a i (env_now env) \<Longrightarrow>
           storedInstance aid t s' = Some None \<and> map_of (activeTimers s') key = None
           \<and> nextTimerId s' = nextTimerId s
           \<and> notified s' = notified s @ [Notification ''Task Completed''
                (completionMessage (action_name a)
                   (showInt \<lfloor>elapsedMinutes i (env_now env) + 1 / 2\<rfloor> @ '' minutes on tab'')) False]"
    and "\<not> repeatLimitReached a n \<Longrightarrow> \<not> timeLimitReached a i (env_now env) \<Longrightarrow>
         intervalValid a (env_rnd env) \<Longrightarrow>
           storedInstance aid t s'
             = Some (Some (counted\<lparr>nextExecution := Some (env_now env + calculateInterval a (env_rnd env))\<rparr>))
           \<and> map_of (activeTimers s') key
               = Some \<lparr>timerId = nextTimerId s,
                       t_nextExecution = env_now env + calculateInterval a (env_rnd env),
                       intervalMs = calculateInterval a (env_rnd env),
                       t_actionId = aid, t_tabId = t\<rparr>
           \<and> fmlookup (pendingTimeouts s') (nextTimerId s) = Some (aid, t)
           \<and> completions s' = completions s
           \<and> errorRecoveryAttempts s' = errorRecoveryAttempts s"
    and "\<not> repeatLimitReached a n \<Longrightarrow> \<not> timeLimitReached a i (env_now env) \<Longrightarrow>
         \<not> intervalValid a (env_rnd env) \<Longrightarrow>
         storedAttempts key s + 1 < MAX_RECOVERY_ATTEMPTS \<Longrightarrow> intervalValid a (env_rnd2 env) \<Longrightarrow>
           storedInstance aid t s'
             = Some (Some (counted\<lparr>nextExecution := Some (env_now env + calculateInterval a (env_rnd2 env))\<rparr>))
           \<and> map_of (activeTimers s') key
               = Some \<lparr>timerId = nextTimerId s,
                       t_nextExecution = env_now env + calculateInterval a (env_rnd2 env),
                       intervalMs = calculateInterval a (env_rnd2 env),
                       t_actionId = aid, t_tabId = t\<rparr>
           \<and> storedAttempts key s' = storedAttempts key s + 1"
    and "\<not> repeatLimitReached a n \<Longrightarrow> \<not> timeLimitReached a i (env_now env) \<Longrightarrow>
         \<not> intervalValid a (env_rnd env) \<Longrightarrow>
         \<not> (storedAttempts key s + 1 < MAX_RECOVERY_ATTEMPTS \<and> intervalValid a (env_rnd2 env)) \<Longrightarrow>
           storedInstance aid t s' = Some None \<and> map_of (activeTimers s') key = None"
proof -
  let ?cnt = "\<lambda>i. i\<lparr>executionCount := n, lastExecuted := Some (env_now env)\<rparr>"
  let ?s1 = "updateActionInstance aid t ?cnt s"
  let ?sp = "if notifications (settings s) \<and> (n = 1 \<or> n mod 50 = 0)
             then notifyProgress a n tab ?s1 else ?s1"
  have aid: "action_id a = aid" using live by (auto simp: cycleLive_def dest: findAction_id)
  have find: "findAction aid (getActions s) = Some a" using live by (simp add: cycleLive_def)
  have find1: "findAction aid (getActions ?s1) = Some (updInst t ?cnt a)"
    using find by (simp add: getActions_updateActionInstance findAction_updFirst_same)
  have st1: "storedInstance aid t ?s1 = Some (Some counted)"
    using storedInstance_live [OF live] by (simp add: storedInstance_update counted_def)
  have stp: "storedInstance aid t ?sp = Some (Some counted)" using st1 by simp
  have findp: "findAction aid (getActions ?sp) = Some (updInst t ?cnt a)" using find1 by simp
  have nextp: "nextTimerId ?sp = nextTimerId s" by simp
  have erap: "errorRecoveryAttempts ?sp = errorRecoveryAttempts s" by simp
  have sap: "storedAttempts key ?sp = storedAttempts key s" by (simp add: storedAttempts_def)
  have compp: "completions ?sp = completions s" by simp
  { assume r: "repeatLimitReached a n"
    then have "s' = notifyCompletion (action_name a) (showInt n @ '' executions on tab'')
                      (stopActionOnTab aid t ?s1)"
      by (simp add: s'_def afterSuccess_def Let_def n_def)
    then show "storedInstance aid t s' = Some None \<and> map_of (activeTimers s') key = None
           \<and> nextTimerId s' = nextTimerId s
           \<and> notified s' = notified s @ [Notification ''Task Completed''
                (completionMessage (action_name a) (showInt n @ '' executions on tab'')) False]"
      using storedInstance_stop [OF find1]
      by (simp add: key_def notifyCompletion_def storedInstance_def) }
  { assume r: "\<not> repeatLimitReached a n" and tl: "timeLimitReached a i (env_now env)"
    then have "s' = notifyCompletion (action_name a)
                      (showInt \<lfloor>elapsedMinutes i (env_now env) + 1 / 2\<rfloor> @ '' minutes on tab'')
                      (stopActionOnTab aid t ?s1)"
      by (simp add: s'_def afterSuccess_def Let_def n_def)
    then show "storedInstance aid t s' = Some None \<and> map_of (activeTimers s') key = None
           \<and> nextTimerId s' = nextTimerId s
           \<and> notified s' = notified s @ [Notification ''Task Completed''
                (completionMessage (action_name a)
                   (showInt \<lfloor>elapsedMinutes i (env_now env) + 1 / 2\<rfloor> @ '' minutes on tab'')) False]"
      using storedInstance_stop [OF find1]
      by (simp add: key_def notifyCompletion_def storedInstance_def) }
  { assume r: "\<not> repeatLimitReached a n" and tl: "\<not> timeLimitReached a i (env_now env)"
    then have s': "s' = reschedule a aid t env ?sp"
      unfolding s'_def afterSuccess_def Let_def n_def by (simp only: if_False)
    { assume v: "intervalValid a (env_rnd env)"
      have sch: "scheduleActionOnTab a t (env_now env) (env_rnd env) ?sp = Inr s'"
        unfolding s' by (rule reschedule_valid [OF v])
      show "storedInstance aid t s'
             = Some (Some (counted\<lparr>nextExecution := Some (env_now env + calculateInterval a (env_rnd env))\<rparr>))
           \<and> map_of (activeTimers s') key
               = Some \<lparr>timerId = nextTimerId s,
                       t_nextExecution = env_now env + calculateInterval a (env_rnd env),
                       intervalMs = calculateInterval a (env_rnd env),
                       t_actionId = aid, t_tabId = t\<rparr>
           \<and> fmlookup (pendingTimeouts s') (nextTimerId s) = Some (aid, t)
           \<and> completions s' = completions s
           \<and> errorRecoveryAttempts s' = errorRecoveryAttempts s"
        using storedInstance_schedule [OF sch] map_of_schedule [OF sch] completions_schedule [OF sch]
          scheduleActionOnTab_Inr(7) [OF sch]
        unfolding aid stp nextp erap compp key_def by simp }
    { assume v: "\<not> intervalValid a (env_rnd env)"
      then obtain e where "scheduleActionOnTab a t (env_now env) (env_rnd env) ?sp = Inl e"
        by (auto simp: scheduleActionOnTab_Inl intervalValid_def)
      then have s'': "s' = recoverCycle aid t env ?sp" by (simp add: s' reschedule_def)
      let ?s2 = "?sp\<lparr>errorRecoveryAttempts := AList.update (timerKey aid t)
                 (storedAttempts (timerKey aid t) ?sp + 1) (errorRecoveryAttempts ?sp)\<rparr>"
      { assume low: "storedAttempts key s + 1 < MAX_RECOVERY_ATTEMPTS"
          and v2: "intervalValid a (env_rnd2 env)"
        have v2': "intervalValid (updInst t ?cnt a) (env_rnd2 env)" using v2 by simp
        have low': "storedAttempts (timerKey aid t) ?sp + 1 < MAX_RECOVERY_ATTEMPTS"
          using low sap by (simp add: key_def)
        have sch: "scheduleActionOnTab (updInst t ?cnt a) t (env_now env) (env_rnd2 env) ?s2 = Inr s'"
          unfolding s'' by (rule recoverCycle_rearm [OF findp low' v2'])
        have stp2: "storedInstance aid t ?s2 = Some (Some counted)" using stp by simp
        have aid': "action_id (updInst t ?cnt a) = aid" using aid by simp
        show "storedInstance aid t s'
             = Some (Some (counted\<lparr>nextExecution := Some (env_now env + calculateInterval a (env_rnd2 env))\<rparr>))
           \<and> map_of (activeTimers s') key
               = Some \<lparr>timerId = nextTimerId s,
                       t_nextExecution = env_now env + calculateInterval a (env_rnd2 env),
                       intervalMs = calculateInterval a (env_rnd2 env),
                       t_actionId = aid, t_tabId = t\<rparr>
           \<and> storedAttempts key s' = storedAttempts key s + 1"
          using storedInstance_schedule [OF sch] map_of_schedule(1) [OF sch]
            scheduleActionOnTab_Inr(7) [OF sch] sap
          unfolding aid' stp2 key_def
          by (simp add: storedAttempts_def update_conv') }
      { assume no: "\<not> (storedAttempts key s + 1 < MAX_RECOVERY_ATTEMPTS \<and> intervalValid a (env_rnd2 env))"
        then have no': "\<not> (storedAttempts (timerKey aid t) ?sp + 1 < MAX_RECOVERY_ATTEMPTS
                         \<and> intervalValid (updInst t ?cnt a) (env_rnd2 env))"
          using sap by (simp add: key_def)
        have "s' = stopActionOnTab aid t
               (?sp\<lparr>errorRecoveryAttempts := AList.update (timerKey aid t)
                     (storedAttempts (timerKey aid t) ?sp + 1) (errorRecoveryAttempts ?sp),
                  activeTimers := AList.delete (timerKey aid t) (activeTimers ?sp)\<rparr>)"
          unfolding s'' by (rule recoverCycle_cleanup [OF findp no'])
        moreover have "findAction aid (getActions
               (?sp\<lparr>errorRecoveryAttempts := AList.update (timerKey aid t)
                     (storedAttempts (timerKey aid t) ?sp + 1) (errorRecoveryAttempts ?sp),
                  activeTimers := AList.delete (timerKey aid t) (activeTimers ?sp)\<rparr>))
               = Some (updInst t ?cnt a)"
          using findp by simp
        ultimately show "storedInstance aid t s' = Some None \<and> map_of (activeTimers s') key = None"
          using storedInstance_stop by (simp add: key_def) } } }
qed


text \<open>
  C6, as stated: after a successful execution with neither limit reached, the instance is
  rescheduled. It fails when the fresh interval is outside \<open>[100, 86400000]\<close>: the action that
  draws between 50 and 150 milliseconds, with both draws 0, executes, reaches no limit, and
  ends with the instance removed and no registry entry.
\<close>

theorem success_without_reschedule:
  "cycleLive ''a1'' 7 (ex_randomAction\<lparr>instances := fmap_of_list [(7, ex_limitInst)]\<rparr>)
      ex_limitInst ex_drawState
   \<and> dispatchOutcome ex_randomAction (ex_env7 11000 0) = Succeeded Injected
   \<and> \<not> repeatLimitReached ex_randomAction (executionCount ex_limitInst + 1)
   \<and> \<not> timeLimitReached ex_randomAction ex_limitInst 11000
   \<and> storedInstance ''a1'' 7 (executeAndRescheduleOnTab ''a1'' 7 (ex_env7 11000 0) ex_drawState)
       = Some None
   \<and> map_of (activeTimers (executeAndRescheduleOnTab ''a1'' 7 (ex_env7 11000 0) ex_drawState))
        (timerKey ''a1'' 7) = None"
  by code_simp

text \<open>
  C6, amended: after a successful execution the stored count is incremented and the limits
  are checked on it, the repeat limit first. Repeat limit reached: the instance is removed,
  the registry entry deleted, no timeout set, and one completion notification with the count
  is shown. Otherwise, time limit reached: the same with the rounded minutes. Otherwise the
  pair is scheduled again: when the fresh interval lies in \<open>[100, 86400000]\<close> the instance stays
  (count incremented) and the pair is armed with that interval, with no completion
  notification; when it does not, the \<^verbatim>\<open>catch\<close> block counts one recovery attempt and arms
  the pair with a second draw if that one is in range and fewer than three attempts are
  stored, and removes the instance otherwise.
\<close>

theorem limits_after_success:
  assumes live: "cycleLive actionId tabId action inst s"
    and ok: "dispatchOutcome action env = Succeeded d"
  shows "let key = timerKey actionId tabId;
             n = executionCount inst + 1;
             counted = inst\<lparr>executionCount := n, lastExecuted := Some (env_now env)\<rparr>;
             s' = executeAndRescheduleOnTab actionId tabId env s
         in if repeatLimitReached action n then
              storedInstance actionId tabId s' = Some None
              \<and> map_of (activeTimers s') key = None \<and> nextTimerId s' = nextTimerId s
              \<and> notified s' = notified s @ [Notification ''Task Completed''
                   (completionMessage (action_name action) (showInt n @ '' executions on tab'')) False]
            else if timeLimitReached action inst (env_now env) then
              storedInstance actionId tabId s' = Some None
              \<and> map_of (activeTimers s') key = None \<and> nextTimerId s' = nextTimerId s
              \<and> notified s' = notified s @ [Notification ''Task Completed''
                   (completionMessage (action_name action)
                      (showInt \<lfloor>elapsedMinutes inst (env_now env) + 1 / 2\<rfloor> @ '' minutes on tab'')) False]
            else if intervalValid action (env_rnd env) then
              storedInstance actionId tabId s'
                = Some (Some (counted\<lparr>nextExecution :=
                                 Some (env_now env + calculateInterval action (env_rnd env))\<rparr>))
              \<and> map_of (activeTimers s') key
                  = Some \<lparr>timerId = nextTimerId s,
                          t_nextExecution = env_now env + calculateInterval action (env_rnd env),
                          intervalMs = calculateInterval action (env_rnd env),
                          t_actionId = actionId, t_tabId = tabId\<rparr>
              \<and> fmlookup (pendingTimeouts s') (nextTimerId s) = Some (actionId, tabId)
              \<and> completions s' = completions s
            else if storedAttempts key s + 1 < MAX_RECOVERY_ATTEMPTS
                    \<and> intervalValid action (env_rnd2 env) then
              storedInstance actionId tabId s'
                = Some (Some (counted\<lparr>nextExecution :=
                                 Some (env_now env + calculateInterval action (env_rnd2 env))\<rparr>))
              \<and> map_of (activeTimers s') key
                  = Some \<lparr>timerId = nextTimerId s,
                          t_nextExecution = env_now env + calculateInterval action (env_rnd2 env),
                          intervalMs = calculateInterval action (env_rnd2 env),
                          t_actionId = actionId, t_tabId = tabId\<rparr>
              \<and> storedAttempts key s' = storedAttempts key s + 1
            else storedInstance actionId tabId s' = Some None
              \<and> map_of (activeTimers s') key = None"
proof -
  obtain tab where
    c: "executeAndRescheduleOnTab actionId tabId env s
          = afterSuccess action inst tab (settings s) actionId tabId env s"
    using cycle_succeeded [OF live ok] by blast
  note p = success_path [OF live, where tab = tab and env = env]
  show ?thesis
    unfolding Let_def c using p by (simp only: split: if_split) blast
qed

theorem limits_after_success_witness:
  "cycleLive ''a2'' 7 ex_limitAction ex_limitInst ex_limitState
   \<and> dispatchOutcome ex_limitAction (ex_env7 121000 0) = Succeeded Injected
   \<and> repeatLimitReached ex_limitAction 3
   \<and> timeLimitReached ex_limitAction ex_limitInst 121000
   \<and> storedInstance ''a2'' 7 (executeAndRescheduleOnTab ''a2'' 7 (ex_env7 121000 0) ex_limitState)
       = Some None
   \<and> map_of (activeTimers (executeAndRescheduleOnTab ''a2'' 7 (ex_env7 121000 0) ex_limitState))
        (timerKey ''a2'' 7) = None
   \<and> nextTimerId (executeAndRescheduleOnTab ''a2'' 7 (ex_env7 121000 0) ex_limitState) = 4
   \<and> notified (executeAndRescheduleOnTab ''a2'' 7 (ex_env7 121000 0) ex_limitState)
       = [Notification ''Task Completed''
            (completionMessage ''Click'' ''3 executions on tab'') False]"
proof -
  have live: "cycleLive ''a2'' 7 ex_limitAction ex_limitInst ex_limitState" by code_simp
  have ok: "dispatchOutcome ex_limitAction (ex_env7 121000 0) = Succeeded Injected" by code_simp
  have r: "repeatLimitReached ex_limitAction 3" by code_simp
  have tl: "timeLimitReached ex_limitAction ex_limitInst 121000" by code_simp
  have n: "executionCount ex_limitInst + 1 = 3" by (simp add: ex_limitInst_def)
  have nm: "action_name ex_limitAction = ''Click''" by (simp add: ex_limitAction_def)
  have sh: "showInt 3 = ''3''" by code_simp
  have s: "nextTimerId ex_limitState = 4" "notified ex_limitState = []"
    by (simp_all add: ex_limitState_def)
  show ?thesis
    using limits_after_success [OF live ok] live ok r tl
    unfolding Let_def n by (simp add: nm sh s)
qed

section \<open>Restricted pages\<close>




section \<open>Initialization\<close>

text \<open>
  C4, as stated: with global scheduling disabled, \<^verbatim>\<open>initializeTimers\<close> clears all armed
  timers. It fails: the check of \<^verbatim>\<open>globalEnabled\<close> returns before \<^verbatim>\<open>clearAllTimers\<close> is
  reached, so the armed timer of \<open>ex_pausedState\<close> is still in the registry and still pending.
\<close>

theorem initializeTimers_keeps_timers:
  "\<not> globalEnabled (settings ex_pausedState) \<and> \<not> isInitialized ex_pausedState
   \<and> map fst (activeTimers (initializeTimers 7000 (\<lambda>k. 0) ex_pausedState)) = [''a1-42'']
   \<and> fmlookup (pendingTimeouts (initializeTimers 7000 (\<lambda>k. 0) ex_pausedState)) 1 = Some (''a1'', 42)"
  by code_simp

text \<open>
  C4, amended: with global scheduling disabled, \<^verbatim>\<open>initializeTimers\<close> (when its one-shot flag
  is not set) sets the flag and empties the badge, and changes nothing else: the registry and
  the pending timeouts stay as they are, none is cleared and none is armed. With the flag
  set it does nothing.
\<close>

theorem initializeTimers_disabled:
  assumes "\<not> globalEnabled (settings s)"
  shows "initializeTimers now rnd s
           = (if isInitialized s then s else s\<lparr>isInitialized := True, badgeText := []\<rparr>)
         \<and> activeTimers (initializeTimers now rnd s) = activeTimers s
         \<and> pendingTimeouts (initializeTimers now rnd s) = pendingTimeouts s
         \<and> nextTimerId (initializeTimers now rnd s) = nextTimerId s"
  using assms by (simp add: initializeTimers_def Let_def updateBadge_def)

theorem initializeTimers_disabled_witness:
  "\<not> globalEnabled (settings ex_pausedState)
   \<and> initializeTimers 7000 (\<lambda>k. 0) ex_pausedState
       = ex_pausedState\<lparr>isInitialized := True, badgeText := []\<rparr>
   \<and> activeTimers (initializeTimers 7000 (\<lambda>k. 0) ex_pausedState) = activeTimers ex_pausedState"
proof -
  have g: "\<not> globalEnabled (settings ex_pausedState)" by (simp add: ex_pausedState_def)
  have i: "\<not> isInitialized ex_pausedState" by (simp add: ex_pausedState_def)
  show ?thesis using initializeTimers_disabled [OF g, of 7000 "\<lambda>k. 0"] g i by simp
qed

section \<open>One timer per key\<close>

lemma registryConsistentD:
  assumes "registryConsistent s" and "fmlookup (pendingTimeouts s) h = Some (a, t)"
  shows "0 < h" and "h < nextTimerId s"
    and "\<exists>ti. map_of (activeTimers s) (timerKey a t) = Some ti \<and> timerId ti = h"
  using assms unfolding registryConsistent_def
  by (auto dest!: fmpredD split: option.splits)

lemma registryConsistent_entry:
  assumes "registryConsistent s" and "(k, ti) \<in> set (activeTimers s)"
  shows "timerId ti < nextTimerId s"
  using assms unfolding registryConsistent_def by (auto simp: list_all_iff)

lemma registryConsistent_lookup:
  assumes "registryConsistent s" and "map_of (activeTimers s) k = Some ti"
  shows "timerId ti < nextTimerId s"
  using assms(1) map_of_SomeD [OF assms(2)] by (rule registryConsistent_entry)

lemma registryConsistentI:
  assumes "distinct (map fst (activeTimers s))" and "0 < nextTimerId s"
    and "\<And>k ti. (k, ti) \<in> set (activeTimers s) \<Longrightarrow> timerId ti < nextTimerId s"
    and "\<And>h a t. fmlookup (pendingTimeouts s) h = Some (a, t) \<Longrightarrow>
           0 < h \<and> h < nextTimerId s
           \<and> (\<exists>ti. map_of (activeTimers s) (timerKey a t) = Some ti \<and> timerId ti = h)"
  shows "registryConsistent s"
  unfolding registryConsistent_def
proof (intro conjI fmpredI)
  show "distinct (map fst (activeTimers s))" by (rule assms(1))
next
  show "0 < nextTimerId s" by (rule assms(2))
next
  show "list_all (\<lambda>(key, timerInfo). timerId timerInfo < nextTimerId s) (activeTimers s)"
    using assms(3) by (auto simp: list_all_iff)
next
  fix h p assume l: "fmlookup (pendingTimeouts s) h = Some p"
  obtain a t where p: "p = (a, t)" by (cases p)
  from assms(4) [OF l [unfolded p]]
  show "case p of (actionId, tabId) \<Rightarrow> 0 < h \<and> h < nextTimerId s \<and>
          (case map_of (activeTimers s) (timerKey actionId tabId) of None \<Rightarrow> False
           | Some timerInfo \<Rightarrow> timerId timerInfo = h)"
    using p by auto
qed

lemma pending_clearExisting:
  "fmlookup (pendingTimeouts (clearExisting key s)) h = Some p \<Longrightarrow>
     fmlookup (pendingTimeouts s) h = Some p
     \<and> (\<forall>ti. map_of (activeTimers s) key = Some ti \<longrightarrow> timerId ti = 0 \<or> timerId ti \<noteq> h)"
  by (auto simp: clearExisting_def clearTimeout_def split: option.splits if_splits)

lemma schedule_consistent:
  assumes c: "registryConsistent s" and sch: "scheduleActionOnTab a t now r s = Inr s'"
  shows "registryConsistent s'"
proof (rule registryConsistentI)
  note f = scheduleActionOnTab_Inr [OF sch]
  let ?k = "timerKey (action_id a) t"
  show "distinct (map fst (activeTimers s'))"
    using c by (simp add: f(4) registryConsistent_def distinct_update)
  show "0 < nextTimerId s'" by (simp add: f(6))
  show "timerId ti < nextTimerId s'" if "(k, ti) \<in> set (activeTimers s')" for k ti
  proof -
    have "map_of (activeTimers s') k = Some ti"
      using that \<open>distinct (map fst (activeTimers s'))\<close> by simp
    then have "k = ?k \<and> timerId ti = nextTimerId s \<or> map_of (activeTimers s) k = Some ti"
      unfolding f(4) update_conv' by (cases "k = ?k") auto
    then show ?thesis
      using registryConsistent_lookup [OF c, of k ti] unfolding f(6) by auto
  qed
  fix h a' t' assume l: "fmlookup (pendingTimeouts s') h = Some (a', t')"
  show "0 < h \<and> h < nextTimerId s'
           \<and> (\<exists>ti. map_of (activeTimers s') (timerKey a' t') = Some ti \<and> timerId ti = h)"
  proof (cases "h = nextTimerId s")
    case True
    then have "(a', t') = (action_id a, t)" using l by (simp add: f(5))
    moreover have "0 < nextTimerId s" using c by (simp add: registryConsistent_def)
    ultimately show ?thesis using True by (simp add: f(4,6) update_conv')
  next
    case False
    then have "fmlookup (pendingTimeouts (clearExisting ?k s)) h = Some (a', t')"
      using l by (simp add: f(5))
    note old = pending_clearExisting [OF this]
    note d = registryConsistentD [OF c conjunct1 [OF old]]
    from d(3) obtain ti where ti: "map_of (activeTimers s) (timerKey a' t') = Some ti" "timerId ti = h"
      by blast
    have "timerKey a' t' \<noteq> ?k"
    proof
      assume "timerKey a' t' = ?k"
      then have "timerId ti = 0 \<or> timerId ti \<noteq> h" using old ti(1) by simp
      then show False using ti(2) d(1) by simp
    qed
    then show ?thesis using d(1,2) ti by (simp add: f(4,6) update_conv')
  qed
qed


lemma one_entry:
  "distinct (map fst xs) \<Longrightarrow> map_of xs k = Some v \<Longrightarrow> length (filter (\<lambda>e. fst e = k) xs) = 1"
proof (induction xs)
  case Nil
  then show ?case by simp
next
  case (Cons x xs)
  show ?case
  proof (cases "fst x = k")
    case True
    then have "k \<notin> fst ` set xs" using Cons.prems(1) by auto
    then have "filter (\<lambda>e. fst e = k) xs = []" by (auto simp: filter_empty_conv)
    then show ?thesis using True by simp
  next
    case False
    then show ?thesis using Cons by (cases x) auto
  qed
qed

section \<open>Armed keys stay within the enabled instances\<close>




lemma keysOf_Nil [simp]: "keysOf [] = {}"
  by (simp add: keysOf_def enabledTargets_def)
















lemma armedKeys_update [simp]: "armedKeys (updateActionInstance aid t upd s) = armedKeys s"
  by (simp add: armedKeys_def)




lemma enabledKeys_fields [simp]:
  "enabledKeys (s\<lparr>settings := x1\<rparr>) = enabledKeys s"
  "enabledKeys (s\<lparr>logs := x2\<rparr>) = enabledKeys s"
  "enabledKeys (s\<lparr>activeTimers := x3\<rparr>) = enabledKeys s"
  "enabledKeys (s\<lparr>errorRecoveryAttempts := x4\<rparr>) = enabledKeys s"
  "enabledKeys (s\<lparr>isInitialized := x5\<rparr>) = enabledKeys s"
  "enabledKeys (s\<lparr>pendingTimeouts := x6\<rparr>) = enabledKeys s"
  "enabledKeys (s\<lparr>nextTimerId := x7\<rparr>) = enabledKeys s"
  "enabledKeys (s\<lparr>notified := x8\<rparr>) = enabledKeys s"
  "enabledKeys (s\<lparr>badgeText := x9\<rparr>) = enabledKeys s"
  by (simp_all add: enabledKeys_def)

lemma armedKeys_fields [simp]:
  "armedKeys (s\<lparr>settings := x1\<rparr>) = armedKeys s"
  "armedKeys (s\<lparr>logs := x2\<rparr>) = armedKeys s"
  "armedKeys (s\<lparr>actions := x3\<rparr>) = armedKeys s"
  "armedKeys (s\<lparr>errorRecoveryAttempts := x4\<rparr>) = armedKeys s"
  "armedKeys (s\<lparr>isInitialized := x5\<rparr>) = armedKeys s"
  "armedKeys (s\<lparr>pendingTimeouts := x6\<rparr>) = armedKeys s"
  "armedKeys (s\<lparr>nextTimerId := x7\<rparr>) = armedKeys s"
  "armedKeys (s\<lparr>notified := x8\<rparr>) = armedKeys s"
  "armedKeys (s\<lparr>badgeText := x9\<rparr>) = armedKeys s"
  by (simp_all add: armedKeys_def)

lemma inv_fields [simp]:
  "armedWithinEnabled (s\<lparr>settings := x1\<rparr>) = armedWithinEnabled s"
  "armedWithinEnabled (s\<lparr>logs := x2\<rparr>) = armedWithinEnabled s"
  "armedWithinEnabled (s\<lparr>errorRecoveryAttempts := x4\<rparr>) = armedWithinEnabled s"
  "armedWithinEnabled (s\<lparr>isInitialized := x5\<rparr>) = armedWithinEnabled s"
  "armedWithinEnabled (s\<lparr>pendingTimeouts := x6\<rparr>) = armedWithinEnabled s"
  "armedWithinEnabled (s\<lparr>nextTimerId := x7\<rparr>) = armedWithinEnabled s"
  "armedWithinEnabled (s\<lparr>notified := x8\<rparr>) = armedWithinEnabled s"
  "armedWithinEnabled (s\<lparr>badgeText := x9\<rparr>) = armedWithinEnabled s"
  by (simp_all add: armedWithinEnabled_def)

lemma inv_simple [simp]:
  "armedWithinEnabled (refreshBadge s) = armedWithinEnabled s"
  "armedWithinEnabled (updateBadge n s) = armedWithinEnabled s"
  "armedWithinEnabled (addLog e now s) = armedWithinEnabled s"
  "armedWithinEnabled (notifyCompletion nm r s) = armedWithinEnabled s"
  "armedWithinEnabled (notifyProgress a c tab s) = armedWithinEnabled s"
  "armedWithinEnabled (clearTimeout h s) = armedWithinEnabled s"
  "armedWithinEnabled (saveSettings f s) = armedWithinEnabled s"
  by (simp_all add: armedWithinEnabled_def armedKeys_def enabledKeys_def clearTimeout_def
        saveSettings_def)









lemma clearAllTimers_armed [simp]: "armedKeys (clearAllTimers s) = {}"
  by (simp add: clearAllTimers_def armedKeys_def)









lemma inv_fold:
  assumes "P s" and "\<And>x s. P s \<Longrightarrow> P (f x s)"
  shows "P (fold f xs s)"
  using assms(1) by (induction xs arbitrary: s) (simp_all add: assms(2))










section \<open>The registry stays consistent\<close>

lemma registryConsistent_cong:
  assumes "activeTimers s' = activeTimers s" and "pendingTimeouts s' = pendingTimeouts s"
    and "nextTimerId s' = nextTimerId s"
  shows "registryConsistent s' = registryConsistent s"
  by (simp add: registryConsistent_def assms)

lemma consistent_simple [simp]:
  "registryConsistent (refreshBadge s) = registryConsistent s"
  "registryConsistent (updateBadge n s) = registryConsistent s"
  "registryConsistent (addLog e now s) = registryConsistent s"
  "registryConsistent (notifyCompletion nm r s) = registryConsistent s"
  "registryConsistent (notifyProgress a c tab s) = registryConsistent s"
  "registryConsistent (updateActionInstance aid t upd s) = registryConsistent s"
  "registryConsistent (removeActionInstance aid t s) = registryConsistent s"
  "registryConsistent (saveSettings f s) = registryConsistent s"
  "registryConsistent (s\<lparr>errorRecoveryAttempts := x\<rparr>) = registryConsistent s"
  "registryConsistent (s\<lparr>isInitialized := y\<rparr>) = registryConsistent s"
  by (rule registryConsistent_cong; simp add: saveSettings_def)+

lemma consistent_drop:
  assumes c: "registryConsistent s"
    and gone: "\<And>h a' t'. fmlookup (pendingTimeouts s') h = Some (a', t') \<Longrightarrow>
                 fmlookup (pendingTimeouts s) h = Some (a', t') \<and> timerKey a' t' \<noteq> k"
    and timers: "activeTimers s' = AList.delete k (activeTimers s)"
    and nxt: "nextTimerId s' = nextTimerId s"
  shows "registryConsistent s'"
proof (rule registryConsistentI)
  show "distinct (map fst (activeTimers s'))"
    using c by (simp add: timers registryConsistent_def distinct_delete)
  show "0 < nextTimerId s'" using c by (simp add: nxt registryConsistent_def)
  show "timerId ti < nextTimerId s'" if "(k', ti) \<in> set (activeTimers s')" for k' ti
  proof -
    have "(k', ti) \<in> set (activeTimers s)" using that by (auto simp: timers AList.delete_eq)
    then show ?thesis using c by (simp add: nxt registryConsistent_entry)
  qed
  fix h a' t' assume "fmlookup (pendingTimeouts s') h = Some (a', t')"
  note g = gone [OF this]
  note d = registryConsistentD [OF c conjunct1 [OF g]]
  show "0 < h \<and> h < nextTimerId s'
         \<and> (\<exists>ti. map_of (activeTimers s') (timerKey a' t') = Some ti \<and> timerId ti = h)"
    using d g by (simp add: nxt timers)
qed

lemma consistent_stop:
  assumes c: "registryConsistent s"
  shows "registryConsistent (stopActionOnTab aid t s)"
proof (rule consistent_drop [OF c, where k = "timerKey aid t"])
  fix h a' t'
  assume "fmlookup (pendingTimeouts (stopActionOnTab aid t s)) h = Some (a', t')"
  then have l: "fmlookup (pendingTimeouts (clearExisting (timerKey aid t) s)) h = Some (a', t')"
    by simp
  note old = pending_clearExisting [OF l]
  note d = registryConsistentD [OF c conjunct1 [OF old]]
  from d(3) obtain ti where ti: "map_of (activeTimers s) (timerKey a' t') = Some ti" "timerId ti = h"
    by blast
  have "timerKey a' t' \<noteq> timerKey aid t"
  proof
    assume "timerKey a' t' = timerKey aid t"
    then have "timerId ti = 0 \<or> timerId ti \<noteq> h" using old ti(1) by simp
    then show False using ti(2) d(1) by simp
  qed
  then show "fmlookup (pendingTimeouts s) h = Some (a', t') \<and> timerKey a' t' \<noteq> timerKey aid t"
    using old by simp
qed simp_all

lemma consistent_forget:
  assumes c: "registryConsistent s"
    and quiet: "\<And>h a' t'. fmlookup (pendingTimeouts s) h = Some (a', t') \<Longrightarrow> timerKey a' t' \<noteq> k"
  shows "registryConsistent (s\<lparr>activeTimers := AList.delete k (activeTimers s)\<rparr>)"
  by (rule consistent_drop [OF c, where k = k]) (simp_all add: quiet)

lemma consistent_fired:
  assumes c: "registryConsistent s" and p: "fmlookup (pendingTimeouts s) h = Some (aid, t)"
  shows "registryConsistent (clearTimeout h s)"
    and "\<And>h' a' t'. fmlookup (pendingTimeouts (clearTimeout h s)) h' = Some (a', t') \<Longrightarrow>
           timerKey a' t' \<noteq> timerKey aid t"
proof -
  show "registryConsistent (clearTimeout h s)"
  proof (rule registryConsistentI)
    show "distinct (map fst (activeTimers (clearTimeout h s)))"
      using c by (simp add: clearTimeout_def registryConsistent_def)
    show "0 < nextTimerId (clearTimeout h s)"
      using c by (simp add: clearTimeout_def registryConsistent_def)
    show "timerId ti < nextTimerId (clearTimeout h s)"
      if "(k', ti) \<in> set (activeTimers (clearTimeout h s))" for k' ti
      using that registryConsistent_entry [OF c, of k' ti] by (simp add: clearTimeout_def)
    fix h' a' t' assume "fmlookup (pendingTimeouts (clearTimeout h s)) h' = Some (a', t')"
    then have "fmlookup (pendingTimeouts s) h' = Some (a', t')"
      by (simp add: clearTimeout_def split: if_splits)
    from registryConsistentD [OF c this]
    show "0 < h' \<and> h' < nextTimerId (clearTimeout h s)
         \<and> (\<exists>ti. map_of (activeTimers (clearTimeout h s)) (timerKey a' t') = Some ti \<and> timerId ti = h')"
      by (simp add: clearTimeout_def)
  qed
  fix h' a' t' assume l: "fmlookup (pendingTimeouts (clearTimeout h s)) h' = Some (a', t')"
  then have ne: "h' \<noteq> h" and l': "fmlookup (pendingTimeouts s) h' = Some (a', t')"
    by (simp_all add: clearTimeout_def split: if_splits)
  show "timerKey a' t' \<noteq> timerKey aid t"
  proof
    assume "timerKey a' t' = timerKey aid t"
    then show False
      using registryConsistentD(3) [OF c l'] registryConsistentD(3) [OF c p] ne by auto
  qed
qed


lemma consistent_recover:
  assumes c: "registryConsistent s"
    and quiet: "\<And>h a' t'. fmlookup (pendingTimeouts s) h = Some (a', t') \<Longrightarrow>
                  timerKey a' t' \<noteq> timerKey aid t"
  shows "registryConsistent (recoverCycle aid t env s)"
proof -
  let ?k = "timerKey aid t"
  let ?s1 = "s\<lparr>errorRecoveryAttempts :=
                 AList.update ?k (storedAttempts ?k s + 1) (errorRecoveryAttempts s)\<rparr>"
  let ?cleanup = "stopActionOnTab aid t (?s1\<lparr>activeTimers := AList.delete ?k (activeTimers ?s1)\<rparr>)"
  have c1: "registryConsistent ?s1" using c by simp
  have "registryConsistent (?s1\<lparr>activeTimers := AList.delete ?k (activeTimers ?s1)\<rparr>)"
    by (rule consistent_forget [OF c1]) (simp add: quiet)
  then have cleanup: "registryConsistent ?cleanup" by (rule consistent_stop)
  show ?thesis
  proof (cases "storedAttempts ?k s + 1 < MAX_RECOVERY_ATTEMPTS")
    case False
    then have "recoverCycle aid t env s = ?cleanup" by (simp add: recoverCycle_def Let_def)
    then show ?thesis using cleanup by simp
  next
    case True
    show ?thesis
    proof (cases "findAction aid (getActions s)")
      case None
      then have "recoverCycle aid t env s = ?cleanup" using True by (simp add: recoverCycle_def Let_def)
      then show ?thesis using cleanup by simp
    next
      case (Some a)
      show ?thesis
      proof (cases "scheduleActionOnTab a t (env_now env) (env_rnd2 env) ?s1")
        case (Inl e)
        then have "recoverCycle aid t env s = ?cleanup"
          using True Some by (simp add: recoverCycle_def Let_def)
        then show ?thesis using cleanup by simp
      next
        case (Inr s2)
        then have r: "recoverCycle aid t env s = s2"
          using True Some by (simp add: recoverCycle_def Let_def)
        from c1 Inr have "registryConsistent s2" by (rule schedule_consistent)
        then show ?thesis using r by simp
      qed
    qed
  qed
qed

lemma consistent_reschedule:
  assumes c: "registryConsistent s"
    and quiet: "\<And>h a' t'. fmlookup (pendingTimeouts s) h = Some (a', t') \<Longrightarrow>
                  timerKey a' t' \<noteq> timerKey aid t"
  shows "registryConsistent (reschedule a aid t env s)"
proof (cases "scheduleActionOnTab a t (env_now env) (env_rnd env) s")
  case (Inl e)
  then have "reschedule a aid t env s = recoverCycle aid t env s" by (simp add: reschedule_def)
  then show ?thesis using consistent_recover [OF c quiet] by simp
next
  case (Inr s')
  then have r: "reschedule a aid t env s = s'" by (simp add: reschedule_def)
  from c Inr have "registryConsistent s'" by (rule schedule_consistent)
  then show ?thesis using r by simp
qed

lemma consistent_afterSuccess:
  assumes c: "registryConsistent s"
    and quiet: "\<And>h a' t'. fmlookup (pendingTimeouts s) h = Some (a', t') \<Longrightarrow>
                  timerKey a' t' \<noteq> timerKey aid t"
  shows "registryConsistent (afterSuccess a i tab sett aid t env s)"
proof -
  let ?n = "executionCount i + 1"
  let ?s1 = "updateActionInstance aid t
               (\<lambda>i. i\<lparr>executionCount := ?n, lastExecuted := Some (env_now env)\<rparr>) s"
  let ?sp = "if notifications sett \<and> (?n = 1 \<or> ?n mod 50 = 0)
             then notifyProgress a ?n tab ?s1 else ?s1"
  have c1: "registryConsistent ?s1" using c by simp
  have cp: "registryConsistent ?sp" using c1 by simp
  have pp: "pendingTimeouts ?sp = pendingTimeouts s" by simp
  have stop: "registryConsistent (notifyCompletion nm r (stopActionOnTab aid t ?s1))" for nm r
    using consistent_stop [OF c1] by simp
  have resched: "registryConsistent (reschedule a aid t env ?sp)"
  proof (rule consistent_reschedule [OF cp])
    fix h a' t' assume "fmlookup (pendingTimeouts ?sp) h = Some (a', t')"
    then have "fmlookup (pendingTimeouts s) h = Some (a', t')" by (simp only: pp)
    then show "timerKey a' t' \<noteq> timerKey aid t" by (rule quiet)
  qed
  show ?thesis
    unfolding afterSuccess_def Let_def using stop resched by (simp only: split: if_split) blast
qed

lemma consistent_cycle:
  assumes c: "registryConsistent s"
    and quiet: "\<And>h a' t'. fmlookup (pendingTimeouts s) h = Some (a', t') \<Longrightarrow>
                  timerKey a' t' \<noteq> timerKey aid t"
  shows "registryConsistent (executeAndRescheduleOnTab aid t env s)"
proof -
  let ?k = "timerKey aid t"
  let ?forget = "s\<lparr>activeTimers := AList.delete ?k (activeTimers s)\<rparr>"
  let ?s1 = "s\<lparr>errorRecoveryAttempts :=
                 AList.update ?k (storedAttempts ?k s + 1) (errorRecoveryAttempts s)\<rparr>"
  have forget: "registryConsistent ?forget" using c quiet by (rule consistent_forget)
  have forget': "registryConsistent (refreshBadge ?forget)" using forget by simp
  have stop: "registryConsistent (stopActionOnTab aid t s)" using c by (rule consistent_stop)
  have abort: "registryConsistent (addLog e (env_now env) (stopActionOnTab aid t s))" for e
    using stop by simp
  have r0: "registryConsistent (reschedule a aid t env s)" for a
    using c quiet by (rule consistent_reschedule)
  have r1: "registryConsistent (reschedule a aid t env ?s1)" for a
  proof (rule consistent_reschedule)
    show "registryConsistent ?s1" using c by simp
    fix h a' t' assume "fmlookup (pendingTimeouts ?s1) h = Some (a', t')"
    then have "fmlookup (pendingTimeouts s) h = Some (a', t')" by simp
    then show "timerKey a' t' \<noteq> ?k" by (rule quiet)
  qed
  have ok: "registryConsistent (afterSuccess a i tab sett aid t env s)" for a i tab sett
    using c quiet by (rule consistent_afterSuccess)
  show ?thesis
    unfolding executeAndRescheduleOnTab_def Let_def
    using forget forget' stop abort r0 r1 ok
    by (simp only: split: option.split if_split sum.split) blast
qed

lemma fold_clear_pending:
  "fmlookup (pendingTimeouts
      (fold (\<lambda>(key, timerInfo) s'. if timerId timerInfo \<noteq> 0
                then clearTimeout (timerId timerInfo) s' else s') xs s)) h = Some p \<Longrightarrow>
   fmlookup (pendingTimeouts s) h = Some p \<and> (\<forall>(k, ti) \<in> set xs. timerId ti = 0 \<or> timerId ti \<noteq> h)"
proof (induction xs arbitrary: s)
  case Nil
  then show ?case by simp
next
  case (Cons x xs)
  obtain k ti where x: "x = (k, ti)" by (cases x)
  let ?s = "if timerId ti \<noteq> 0 then clearTimeout (timerId ti) s else s"
  have "fmlookup (pendingTimeouts ?s) h = Some p \<and> (\<forall>(k, ti) \<in> set xs. timerId ti = 0 \<or> timerId ti \<noteq> h)"
    by (rule Cons.IH) (use Cons.prems x in simp)
  then show ?case
    unfolding x by (auto simp: clearTimeout_def split: if_splits)
qed

lemma fold_clear_next:
  "nextTimerId (fold (\<lambda>(key, timerInfo) s'. if timerId timerInfo \<noteq> 0
                then clearTimeout (timerId timerInfo) s' else s') xs s) = nextTimerId s"
  by (induction xs arbitrary: s) (auto simp: clearTimeout_def)

lemma consistent_clearAllTimers:
  assumes c: "registryConsistent s"
  shows "registryConsistent (clearAllTimers s)"
proof (rule registryConsistentI)
  let ?f = "fold (\<lambda>(key, timerInfo) s'. if timerId timerInfo \<noteq> 0
                then clearTimeout (timerId timerInfo) s' else s') (activeTimers s) s"
  have t: "activeTimers (clearAllTimers s) = []" by (simp add: clearAllTimers_def)
  have n: "nextTimerId (clearAllTimers s) = nextTimerId s"
    unfolding clearAllTimers_def using fold_clear_next [of "activeTimers s" s] by simp
  have p: "pendingTimeouts (clearAllTimers s) = pendingTimeouts ?f"
    unfolding clearAllTimers_def by simp
  show "distinct (map fst (activeTimers (clearAllTimers s)))" by (simp add: t)
  show "0 < nextTimerId (clearAllTimers s)" using c by (simp add: n registryConsistent_def)
  show "timerId ti < nextTimerId (clearAllTimers s)"
    if "(k, ti) \<in> set (activeTimers (clearAllTimers s))" for k ti
    using that by (simp add: t)
  fix h a' t' assume "fmlookup (pendingTimeouts (clearAllTimers s)) h = Some (a', t')"
  then have "fmlookup (pendingTimeouts ?f) h = Some (a', t')" by (simp only: p)
  note f = fold_clear_pending [OF this]
  note d = registryConsistentD [OF c conjunct1 [OF f]]
  from d(3) obtain ti where ti: "map_of (activeTimers s) (timerKey a' t') = Some ti" "timerId ti = h"
    by blast
  have "(timerKey a' t', ti) \<in> set (activeTimers s)" using ti(1) by (rule map_of_SomeD)
  then have "timerId ti = 0 \<or> timerId ti \<noteq> h" using f by blast
  then have False using ti(2) d(1) by simp
  then show "0 < h \<and> h < nextTimerId (clearAllTimers s)
         \<and> (\<exists>ti. map_of (activeTimers (clearAllTimers s)) (timerKey a' t') = Some ti \<and> timerId ti = h)"
    ..
qed

lemma consistent_scheduleAll:
  assumes "registryConsistent s"
  shows "registryConsistent (fst (scheduleAll targets now rnd k s n))"
  using assms
proof (induction targets arbitrary: s k n)
  case Nil
  then show ?case by simp
next
  case (Cons x targets)
  obtain a t where x: "x = (a, t)" by (cases x)
  show ?case
  proof (cases "scheduleActionOnTab a t now (rnd k) s")
    case (Inl e)
    then show ?thesis using Cons.IH [OF Cons.prems] x by simp
  next
    case (Inr s')
    have "registryConsistent s'" using Cons.prems Inr by (rule schedule_consistent)
    then show ?thesis using Cons.IH Inr x by simp
  qed
qed

lemma consistent_initializeTimers:
  assumes "registryConsistent s"
  shows "registryConsistent (initializeTimers now rnd s)"
proof (cases "isInitialized s \<or> \<not> globalEnabled (settings s)")
  case True
  then show ?thesis using assms by (auto simp: initializeTimers_def Let_def)
next
  case False
  let ?s0 = "s\<lparr>isInitialized := True\<rparr>"
  have "registryConsistent (clearAllTimers ?s0)"
    by (rule consistent_clearAllTimers) (simp add: assms)
  then have "registryConsistent (fst (scheduleAll (enabledTargets (getActions ?s0)) now rnd 0
          (clearAllTimers ?s0) 0))"
    by (rule consistent_scheduleAll)
  then show ?thesis using False
    by (auto simp: initializeTimers_def Let_def split: prod.splits)
qed

lemma consistent_toggleGlobal:
  assumes "registryConsistent s"
  shows "registryConsistent (toggleGlobal now rnd s)"
proof (cases "globalEnabled (settings s)")
  case True
  have "registryConsistent (clearAllTimers
          (saveSettings (\<lambda>st. st\<lparr>globalEnabled := \<not> globalEnabled (settings s)\<rparr>) s))"
    by (rule consistent_clearAllTimers) (simp add: assms)
  then show ?thesis using True by (simp add: toggleGlobal_def Let_def)
next
  case False
  let ?s1 = "(saveSettings (\<lambda>st. st\<lparr>globalEnabled := \<not> globalEnabled (settings s)\<rparr>) s)\<lparr>isInitialized := False\<rparr>"
  have "registryConsistent ?s1" using assms by simp
  then have "registryConsistent (initializeTimers now rnd ?s1)" by (rule consistent_initializeTimers)
  moreover have "toggleGlobal now rnd s = initializeTimers now rnd ?s1"
    using False by (simp add: toggleGlobal_def Let_def saveSettings_def)
  ultimately show ?thesis by simp
qed

lemma addActionInstance_registry:
  assumes "addActionInstance aid t title now s = Inr s'"
  shows "registryConsistent s' = registryConsistent s"
proof -
  from assms have "s' = saveActions
      (updFirst aid (\<lambda>a. a\<lparr>instances := fmupd t (newInstance t title now) (instances a)\<rparr>) (getActions s)) s"
    by (auto simp: addActionInstance_def split: if_splits option.splits)
  then show ?thesis by (simp add: saveActions_def registryConsistent_def)
qed

lemma consistent_start:
  assumes c: "registryConsistent s"
  shows "registryConsistent (snd (startActionOnTab aid t title tabLookup now rnd s))"
proof (cases "findAction aid (getActions s)")
  case None
  then show ?thesis using c by (simp add: startActionOnTab_def)
next
  case (Some a)
  let ?s1 = "if \<not> globalEnabled (settings s)
             then (saveSettings (\<lambda>st. st\<lparr>globalEnabled := True\<rparr>) s)\<lparr>isInitialized := False\<rparr>
             else s"
  have c1: "registryConsistent ?s1" using c by simp
  obtain ttl where start: "startActionOnTab aid t title tabLookup now rnd s
      = (case addActionInstance aid t ttl now ?s1 of
               Inl (ValidationError m) \<Rightarrow> (StartFailure m ''START_ERROR'', ?s1)
             | Inl (StorageError m) \<Rightarrow> (StartFailure m ''START_ERROR'', ?s1)
             | Inr s2 \<Rightarrow>
                 (case scheduleActionOnTab a t now rnd s2 of
                    Inl m \<Rightarrow> (StartFailure m ''START_ERROR'', s2)
                  | Inr s3 \<Rightarrow> (StartSuccess, refreshBadge s3)))"
    using Some unfolding startActionOnTab_def Let_def by simp
  show ?thesis
  proof (cases "addActionInstance aid t ttl now ?s1")
    case (Inl f)
    then show ?thesis using c1 unfolding start by (cases f) simp_all
  next
    case (Inr s2)
    have c2: "registryConsistent s2" using addActionInstance_registry [OF Inr] c1 by simp
    show ?thesis
    proof (cases "scheduleActionOnTab a t now rnd s2")
      case (Inl m)
      then show ?thesis using c2 Inr unfolding start by simp
    next
      case (Inr s3)
      have "registryConsistent s3" using c2 Inr by (rule schedule_consistent)
      then show ?thesis using Inr \<open>addActionInstance aid t ttl now ?s1 = Inr s2\<close>
        unfolding start by simp
    qed
  qed
qed

lemma consistent_timerFires:
  assumes c: "registryConsistent s"
  shows "registryConsistent (timerFires h env s)"
proof (cases "fmlookup (pendingTimeouts s) h")
  case None
  then show ?thesis using c by (simp add: timerFires_def)
next
  case (Some p)
  obtain aid t where p: "p = (aid, t)" by (cases p)
  note f = consistent_fired [OF c Some [unfolded p]]
  have "registryConsistent (executeAndRescheduleOnTab aid t env (clearTimeout h s))"
    using f(1) f(2) by (rule consistent_cycle)
  then show ?thesis using Some p by (simp add: timerFires_def)
qed

lemma consistent_perform:
  assumes "registryConsistent s"
  shows "registryConsistent (perform op s)"
proof (cases op)
  case (StopOnAllTabs aid)
  then show ?thesis unfolding perform.simps stopActionOnAllTabs_def StopOnAllTabs
    by (intro inv_fold [where P = registryConsistent] assms consistent_stop)
next
  case (TabRemoved t now)
  then show ?thesis unfolding TabRemoved perform.simps onTabRemoved_def
    by (intro inv_fold [where P = registryConsistent] assms) (simp add: consistent_stop)
next
  case (ToggleAction aid b target activeTab tabLookup now rnd)
  have sa: "registryConsistent (stopActionOnAllTabs aid s)"
    unfolding stopActionOnAllTabs_def
    by (intro inv_fold [where P = registryConsistent] assms consistent_stop)
  show ?thesis
    unfolding ToggleAction perform.simps toggleActionState_def startAction_def Let_def
    using assms sa consistent_stop [OF assms] consistent_start [OF assms]
    by (simp split: option.splits)
qed (simp_all add: assms consistent_initializeTimers refreshTimers_def consistent_start
       consistent_stop consistent_toggleGlobal consistent_timerFires)


text \<open>
  C8: a consistent registry (one entry per key, every pending timeout recorded by the entry
  of its pair) stays consistent through any sequence of operations and timer firings. In it,
  a scheduling that arms a key leaves the registry consistent: the key has exactly one entry,
  that entry records the fresh timeout, the timeout of the entry that was there before is no
  longer pending, and the fresh timeout is the only pending one whose callback is for the
  pair.
\<close>

theorem arming_replaces_timer:
  assumes c: "registryConsistent s"
    and sch: "scheduleActionOnTab action tabId now rnd s = Inr s'"
  shows "registryConsistent (fold perform ops s)
       \<and> registryConsistent s'
       \<and> length (filter (\<lambda>e. fst e = timerKey (action_id action) tabId) (activeTimers s')) = 1
       \<and> map_option timerId (map_of (activeTimers s') (timerKey (action_id action) tabId))
           = Some (nextTimerId s)
       \<and> fmlookup (pendingTimeouts s') (nextTimerId s) = Some (action_id action, tabId)
       \<and> (case map_of (activeTimers s) (timerKey (action_id action) tabId) of
             None \<Rightarrow> True
           | Some old \<Rightarrow> fmlookup (pendingTimeouts s') (timerId old) = None)
       \<and> (\<forall>h. fmlookup (pendingTimeouts s') h = Some (action_id action, tabId)
                \<longrightarrow> h = nextTimerId s)"
proof -
  let ?k = "timerKey (action_id action) tabId"
  note f = scheduleActionOnTab_Inr [OF sch]
  have c': "registryConsistent s'" using c sch by (rule schedule_consistent)
  have all: "registryConsistent (fold perform ops s)"
    using c by (rule inv_fold) (rule consistent_perform)
  have new: "map_of (activeTimers s') ?k
               = Some \<lparr>timerId = nextTimerId s, t_nextExecution = now + calculateInterval action rnd,
                       intervalMs = calculateInterval action rnd, t_actionId = action_id action,
                       t_tabId = tabId\<rparr>"
    by (rule map_of_schedule(1) [OF sch])
  have one: "length (filter (\<lambda>e. fst e = ?k) (activeTimers s')) = 1"
    using c' new by (simp add: one_entry registryConsistent_def)
  have pend: "fmlookup (pendingTimeouts s') (nextTimerId s) = Some (action_id action, tabId)"
    by (rule map_of_schedule(2) [OF sch])
  have old: "fmlookup (pendingTimeouts s') (timerId old) = None"
    if o: "map_of (activeTimers s) ?k = Some old" for old
  proof -
    have lt: "timerId old < nextTimerId s" using c o by (rule registryConsistent_lookup)
    show ?thesis
    proof (cases "timerId old = 0")
      case True
      have "fmlookup (pendingTimeouts s) 0 = None"
      proof (cases "fmlookup (pendingTimeouts s) 0")
        case (Some p)
        then show ?thesis using registryConsistentD(1) [OF c, of 0 "fst p" "snd p"] by simp
      qed simp
      then show ?thesis using True lt o
        by (simp add: f(5) clearExisting_def)
    next
      case False
      then show ?thesis using lt o
        by (simp add: f(5) clearExisting_def clearTimeout_def)
    qed
  qed
  have only: "h = nextTimerId s"
    if "fmlookup (pendingTimeouts s') h = Some (action_id action, tabId)" for h
    using registryConsistentD(3) [OF c' that] new by simp
  have oldc: "(case map_of (activeTimers s) ?k of
             None \<Rightarrow> True
           | Some old \<Rightarrow> fmlookup (pendingTimeouts s') (timerId old) = None)"
    using old by (cases "map_of (activeTimers s) ?k") simp_all
  have newid: "map_option timerId (map_of (activeTimers s') ?k) = Some (nextTimerId s)"
    by (simp add: new)
  from only have onlyc: "\<forall>h. fmlookup (pendingTimeouts s') h = Some (action_id action, tabId)
                \<longrightarrow> h = nextTimerId s" by blast
  from all c' one newid pend oldc onlyc show ?thesis by (intro conjI)
qed


theorem arming_replaces_timer_witness:
  "registryConsistent ex_state
   \<and> scheduleActionOnTab ex_action 42 6000 0 ex_state = Inr ex_rearmed
   \<and> map_option timerId (map_of (activeTimers ex_state) (timerKey ''a1'' 42)) = Some 1
   \<and> registryConsistent
       (fold perform [TimerFires 1 (ex_envOk 6000), ToggleGlobal 7000 (\<lambda>k. 0),
                      StartOnTab ''a1'' 9 None None 8000 0] ex_state)
   \<and> registryConsistent ex_rearmed
   \<and> length (filter (\<lambda>e. fst e = timerKey ''a1'' 42) (activeTimers ex_rearmed)) = 1
   \<and> map_option timerId (map_of (activeTimers ex_rearmed) (timerKey ''a1'' 42)) = Some 2
   \<and> fmlookup (pendingTimeouts ex_rearmed) 2 = Some (''a1'', 42)
   \<and> fmlookup (pendingTimeouts ex_rearmed) 1 = None"
proof -
  have c: "registryConsistent ex_state" by code_simp
  have sch: "scheduleActionOnTab ex_action 42 6000 0 ex_state = Inr ex_rearmed" by code_simp
  have old: "map_of (activeTimers ex_state) (timerKey ''a1'' 42)
               = Some \<lparr>timerId = 1, t_nextExecution = 6000, intervalMs = 5000,
                       t_actionId = ''a1'', t_tabId = 42\<rparr>" by code_simp
  have aid: "action_id ex_action = ''a1''" by (simp add: ex_action_def)
  have nxt: "nextTimerId ex_state = 2" by (simp add: ex_state_def)
  show ?thesis
    using arming_replaces_timer [OF c sch,
        of "[TimerFires 1 (ex_envOk 6000), ToggleGlobal 7000 (\<lambda>k. 0),
             StartOnTab ''a1'' 9 None None 8000 0]"] c sch old
    unfolding aid nxt by simp
qed

end
